theory Spec2Isabelle
  imports Complex_Main "HOL-Library.AList"
begin

section \<open>Data model\<close>

text \<open>
  The two stores of the application, \<^verbatim>\<open>src/lib/db.ts\<close> (rates and their history) and
  \<^verbatim>\<open>src/lib/actions/auth.ts\<close> (users and one-time codes), keep one JSON file each
  for rates, rate history and users. Every operation reads a whole file, works on the
  parsed list and writes a whole file back.

  Conventions of the embedding:
  \<^item> an id is a natural number, and \<open>0\<close> stands for a missing id: the code reads an id
    only through \<^verbatim>\<open>!x.id\<close>, \<^verbatim>\<open>x.id || ...\<close>, comparisons and copies, and to the
    first two a missing id and \<open>0\<close> are alike;
  \<^item> a timestamp is an integer number of milliseconds (what \<^verbatim>\<open>Date.getTime()\<close>
    returns); the ISO string written to a file reads back as the same timestamp;
  \<^item> a rate value is a real number; values are only copied, never computed with;
  \<^item> an optional field is an \<open>option\<close>;
  \<^item> the clock (\<^verbatim>\<open>new Date()\<close>) and the random draw of \<^verbatim>\<open>Math.random()\<close> are
    arguments of the operation that reads them;
  \<^item> the cosmetic 50 ms delays and the console output are left out;
  \<^item> the data directory can be created and every write succeeds.
\<close>

text \<open>
  Modelled from the spec: the types \<^verbatim>\<open>BoppRate\<close>, \<^verbatim>\<open>BoppRateHistory\<close>,
  \<^verbatim>\<open>AuthenticatedUser\<close> and \<^verbatim>\<open>Role\<close> of \<^verbatim>\<open>src/lib/types.ts\<close>, which is not among the
  sources. The fields are those of the data model of the specification, which are also
  the fields that the code reads and writes.
\<close>

record BoppRate =
  rate_id :: nat
  rate_key :: string
  rate_value :: real

record BoppRateHistory =
  hist_id :: nat
  changed_at :: int
  changed_by_id :: string
  changed_by_name :: string
  rates_snapshot :: "BoppRate list"

datatype Role = Admin | Employee

record AuthenticatedUser =
  user_id :: string
  user_name :: string
  role :: Role
  password :: "string option"
  otp :: "string option"
  otp_created_at :: "int option"

text \<open>
  What reading a file can give: \<^verbatim>\<open>readFile\<close> fails with \<^verbatim>\<open>ENOENT\<close> (\<open>NoFile\<close>),
  the \<^verbatim>\<open>try\<close> block fails in any other way, for instance on text that is not JSON
  (\<open>BadFile\<close>), or the file holds a list of records (\<open>File\<close>).
\<close>

datatype 'a json_file = NoFile | BadFile | File 'a

record storage =
  rates_file :: "BoppRate list json_file"
  history_file :: "BoppRateHistory list json_file"
  users_file :: "AuthenticatedUser list json_file"

section \<open>Rate store (\<^verbatim>\<open>db.ts\<close>)\<close>

definition initialDefaultRates :: "BoppRate list" where
  "initialDefaultRates =
    [\<lparr>rate_id = 1, rate_key = ''adhesive_less_rate'', rate_value = 80\<rparr>,
     \<lparr>rate_id = 2, rate_key = ''adhesive_rate'', rate_value = 90\<rparr>,
     \<lparr>rate_id = 3, rate_key = ''bopp_film_rate'', rate_value = 118\<rparr>,
     \<lparr>rate_id = 4, rate_key = ''brown_tape'', rate_value = 105\<rparr>,
     \<lparr>rate_id = 5, rate_key = ''coating_exp'', rate_value = 12\<rparr>,
     \<lparr>rate_id = 6, rate_key = ''color_tape'', rate_value = 250\<rparr>,
     \<lparr>rate_id = 7, rate_key = ''double_colour_printed'', rate_value = 225\<rparr>,
     \<lparr>rate_id = 8, rate_key = ''four_colour_printed'', rate_value = 350\<rparr>,
     \<lparr>rate_id = 9, rate_key = ''full_print'', rate_value = 1000\<rparr>,
     \<lparr>rate_id = 10, rate_key = ''milky_white'', rate_value = 160\<rparr>,
     \<lparr>rate_id = 11, rate_key = ''natural'', rate_value = 0\<rparr>,
     \<lparr>rate_id = 12, rate_key = ''packing_cost'', rate_value = 60\<rparr>,
     \<lparr>rate_id = 13, rate_key = ''profit'', rate_value = 10\<rparr>,
     \<lparr>rate_id = 14, rate_key = ''single_colour_printed'', rate_value = 150\<rparr>,
     \<lparr>rate_id = 15, rate_key = ''three_colour_printed'', rate_value = 300\<rparr>,
     \<lparr>rate_id = 16, rate_key = ''transparent'', rate_value = 0\<rparr>]"

text \<open>
  The default history is built when the module is loaded, from the clock at that moment
  (\<open>t0\<close>): its two entries are dated two days and one day before \<open>t0\<close>, the older one
  first.
\<close>

definition initialMockRateHistory :: "int \<Rightarrow> BoppRateHistory list" where
  "initialMockRateHistory t0 =
    [\<lparr>hist_id = 1, changed_at = t0 - 2 * 24 * 60 * 60 * 1000,
      changed_by_id = ''system-init'', changed_by_name = ''System Initialization'',
      rates_snapshot =
        [\<lparr>rate_id = 3, rate_key = ''bopp_film_rate'', rate_value = 110\<rparr>,
         \<lparr>rate_id = 2, rate_key = ''adhesive_rate'', rate_value = 80\<rparr>,
         \<lparr>rate_id = 12, rate_key = ''packing_cost'', rate_value = 50\<rparr>,
         \<lparr>rate_id = 13, rate_key = ''profit'', rate_value = 7\<rparr>]\<rparr>,
     \<lparr>hist_id = 2, changed_at = t0 - 1 * 24 * 60 * 60 * 1000,
      changed_by_id = ''system-init'', changed_by_name = ''System Initialization'',
      rates_snapshot =
        [\<lparr>rate_id = 3, rate_key = ''bopp_film_rate'', rate_value = 115\<rparr>,
         \<lparr>rate_id = 2, rate_key = ''adhesive_rate'', rate_value = 85\<rparr>,
         \<lparr>rate_id = 12, rate_key = ''packing_cost'', rate_value = 55\<rparr>,
         \<lparr>rate_id = 13, rate_key = ''profit'', rate_value = 8\<rparr>]\<rparr>]"

subsection \<open>Loading the rates\<close>

text \<open>
  A JavaScript \<^verbatim>\<open>Map\<close> keeps its keys in insertion order; \<^verbatim>\<open>set\<close> on a key that is
  present replaces the value in place and on a new key appends. That is
  \<^const>\<open>AList.update\<close> on an association list; \<^verbatim>\<open>get\<close> is \<^const>\<open>map_of\<close> and
  \<^verbatim>\<open>Array.from(m.values())\<close> is \<open>map snd\<close>.
\<close>

type_synonym rate_map = "(string \<times> BoppRate) list"

text \<open>The first pass over the defaults: the greatest id among them.\<close>

definition max_default_id :: "BoppRate list \<Rightarrow> nat" where
  "max_default_id ds = fold (\<lambda>d mx. if rate_id d \<noteq> 0 \<and> rate_id d > mx then rate_id d else mx) ds 0"

text \<open>
  The second pass: a default without id gets the next one, and a copy of every default
  goes into the map under its key.
\<close>

fun seed_defaults :: "BoppRate list \<Rightarrow> rate_map \<times> nat \<Rightarrow> rate_map \<times> nat" where
  "seed_defaults [] st = st"
| "seed_defaults (d # ds) (m, mx) =
     (if rate_id d = 0
      then seed_defaults ds (AList.update (rate_key d) (d\<lparr>rate_id := mx + 1\<rparr>) m, mx + 1)
      else seed_defaults ds (AList.update (rate_key d) d m, mx))"

text \<open>
  The third pass, over the rates of the file: a rate without id gets the next one, an id
  above the running maximum raises it, and the rate replaces or extends the entry of its
  key (the spread of the file's rate over the entry keeps the file's id, key and value).
\<close>

fun overlay_file :: "BoppRate list \<Rightarrow> rate_map \<times> nat \<Rightarrow> rate_map \<times> nat" where
  "overlay_file [] st = st"
| "overlay_file (r # rs) (m, mx) =
     (if rate_id r = 0
      then overlay_file rs (AList.update (rate_key r) (r\<lparr>rate_id := mx + 1\<rparr>) m, mx + 1)
      else overlay_file rs (AList.update (rate_key r) r m, if rate_id r > mx then rate_id r else mx))"

definition merge_with_defaults :: "BoppRate list \<Rightarrow> BoppRate list" where
  "merge_with_defaults ratesFromFile =
     map snd (fst (overlay_file ratesFromFile
       (seed_defaults initialDefaultRates ([], max_default_id initialDefaultRates))))"

text \<open>
  The two fallback branches give the defaults, each one keeping its id when it has one
  and taking the next id otherwise.
\<close>

fun defaults_with_ids :: "BoppRate list \<Rightarrow> nat \<Rightarrow> BoppRate list" where
  "defaults_with_ids [] mx = []"
| "defaults_with_ids (d # ds) mx =
     (if rate_id d = 0 then d\<lparr>rate_id := mx + 1\<rparr> # defaults_with_ids ds (mx + 1)
      else d # defaults_with_ids ds mx)"

definition finalDefaultRates :: "BoppRate list" where
  "finalDefaultRates = defaults_with_ids initialDefaultRates (max_default_id initialDefaultRates)"

text \<open>
  \<^verbatim>\<open>loadRatesFromFile\<close>: a missing file is created with the defaults; any other failure
  gives the defaults and writes nothing.
\<close>

definition loadRatesFromFile :: "storage \<Rightarrow> BoppRate list \<times> storage" where
  "loadRatesFromFile s =
     (case rates_file s of
        File ratesFromFile \<Rightarrow> (merge_with_defaults ratesFromFile, s)
      | NoFile \<Rightarrow> (finalDefaultRates, s\<lparr>rates_file := File finalDefaultRates\<rparr>)
      | BadFile \<Rightarrow> (finalDefaultRates, s))"

definition saveRatesToFile :: "BoppRate list \<Rightarrow> storage \<Rightarrow> storage" where
  "saveRatesToFile rates s = s\<lparr>rates_file := File rates\<rparr>"

subsection \<open>Loading the history\<close>

text \<open>
  \<^verbatim>\<open>loadHistoryFromFile\<close>: the entries of the file, or the default history; a missing
  file is created with the default history.
\<close>

definition loadHistoryFromFile :: "int \<Rightarrow> storage \<Rightarrow> BoppRateHistory list \<times> storage" where
  "loadHistoryFromFile t0 s =
     (case history_file s of
        File history \<Rightarrow> (history, s)
      | NoFile \<Rightarrow> (initialMockRateHistory t0, s\<lparr>history_file := File (initialMockRateHistory t0)\<rparr>)
      | BadFile \<Rightarrow> (initialMockRateHistory t0, s))"

definition saveHistoryToFile :: "BoppRateHistory list \<Rightarrow> storage \<Rightarrow> storage" where
  "saveHistoryToFile history s = s\<lparr>history_file := File history\<rparr>"

subsection \<open>The operations\<close>

definition getBoppRates :: "storage \<Rightarrow> BoppRate list \<times> storage" where
  "getBoppRates s = loadRatesFromFile s"

text \<open>
  The loop of \<^verbatim>\<open>updateBoppRates\<close> over the rates of the form. A key that is in the map
  keeps its entry and takes the new value; a new key gets an entry with the form's id
  when it has one (\<^verbatim>\<open>formRate.id || ++maxCurrentId\<close>) and the next id otherwise.
\<close>

fun merge_form :: "BoppRate list \<Rightarrow> rate_map \<times> nat \<Rightarrow> rate_map \<times> nat" where
  "merge_form [] st = st"
| "merge_form (formRate # rest) (m, maxCurrentId) =
     (case map_of m (rate_key formRate) of
        Some existingRate \<Rightarrow>
          merge_form rest
            (AList.update (rate_key formRate) (existingRate\<lparr>rate_value := rate_value formRate\<rparr>) m,
             maxCurrentId)
      | None \<Rightarrow>
          if rate_id formRate \<noteq> 0
          then merge_form rest
            (AList.update (rate_key formRate)
               \<lparr>rate_id = rate_id formRate, rate_key = rate_key formRate,
                rate_value = rate_value formRate\<rparr> m,
             maxCurrentId)
          else merge_form rest
            (AList.update (rate_key formRate)
               \<lparr>rate_id = maxCurrentId + 1, rate_key = rate_key formRate,
                rate_value = rate_value formRate\<rparr> m,
             maxCurrentId + 1))"

text \<open>
  The id of the new history entry,
  \<^verbatim>\<open>history.length > 0 ? Math.max(0, ...history.map(h => h.id || 0)) + 1 : 1\<close>.
\<close>

definition newHistoryId :: "BoppRateHistory list \<Rightarrow> nat" where
  "newHistoryId history =
     (if length history > 0 then fold max (map hist_id history) 0 + 1 else 1)"

text \<open>
  The rates that are written: the map starts with a copy of every current rate under its
  key, the running maximum with the greatest current id, and the values of the map after
  the loop are the result.
\<close>

definition updatedRates :: "BoppRate list \<Rightarrow> BoppRate list \<Rightarrow> BoppRate list" where
  "updatedRates currentRatesInFile newRatesFromForm =
     map snd (fst (merge_form newRatesFromForm
       (fold (\<lambda>rate m. AList.update (rate_key rate) rate m) currentRatesInFile [],
        fold (\<lambda>rate mx. max mx (rate_id rate)) currentRatesInFile 0)))"

text \<open>
  \<^verbatim>\<open>updateBoppRates\<close>: load the rates and the history, put the new entry with a copy of
  the loaded rates in front of the history, merge the form into the rates, write the
  rates and the first 50 entries of the history.
\<close>

definition updateBoppRates ::
  "int \<Rightarrow> int \<Rightarrow> BoppRate list \<Rightarrow> string \<Rightarrow> string \<Rightarrow> storage \<Rightarrow> storage" where
  "updateBoppRates t0 now newRatesFromForm userId userName s =
     (let (currentRatesInFile, s1) = loadRatesFromFile s;
          (history, s2) = loadHistoryFromFile t0 s1;
          history' = \<lparr>hist_id = newHistoryId history, changed_at = now,
                      changed_by_id = userId, changed_by_name = userName,
                      rates_snapshot = currentRatesInFile\<rparr> # history;
          finalUpdatedRates = updatedRates currentRatesInFile newRatesFromForm
      in saveHistoryToFile (take 50 history') (saveRatesToFile finalUpdatedRates s2))"

text \<open>
  \<^verbatim>\<open>xs.slice(0, end)\<close> for an integer \<open>end\<close>: the first \<open>end\<close> elements, and for a
  negative \<open>end\<close> all but the last \<open>-end\<close> elements (the end index is then
  \<^verbatim>\<open>max(length + end, 0)\<close>).
\<close>

definition slice_to :: "'a list \<Rightarrow> int \<Rightarrow> 'a list" where
  "slice_to xs end_index =
     (if end_index < 0 then take (nat (int (length xs) + end_index)) xs else take (nat end_index) xs)"

text \<open>\<^verbatim>\<open>getRateHistory\<close>, for an integer limit.\<close>

definition getRateHistory :: "int \<Rightarrow> int \<Rightarrow> storage \<Rightarrow> BoppRateHistory list \<times> storage" where
  "getRateHistory t0 limit s =
     (let (history, s') = loadHistoryFromFile t0 s in (slice_to history limit, s'))"

subsection \<open>Notions used to state the properties of the rate store\<close>

text \<open>The entry that \<^verbatim>\<open>updateBoppRates\<close> puts in front of the history.\<close>

definition new_entry :: "int \<Rightarrow> int \<Rightarrow> string \<Rightarrow> string \<Rightarrow> storage \<Rightarrow> BoppRateHistory" where
  "new_entry t0 now userId userName s =
     \<lparr>hist_id = newHistoryId (fst (loadHistoryFromFile t0 s)), changed_at = now,
      changed_by_id = userId, changed_by_name = userName,
      rates_snapshot = fst (loadRatesFromFile s)\<rparr>"

text \<open>A sequence of calls of \<^verbatim>\<open>updateBoppRates\<close>, each with its clock, rates and actor.\<close>

type_synonym update_call = "int \<times> BoppRate list \<times> string \<times> string"

fun apply_updates :: "int \<Rightarrow> update_call list \<Rightarrow> storage \<Rightarrow> storage" where
  "apply_updates t0 [] s = s"
| "apply_updates t0 ((now, newRates, userId, userName) # calls) s =
     apply_updates t0 calls (updateBoppRates t0 now newRates userId userName s)"

text \<open>
  A form leaves the ids to the store when every rate in it either has no id or has a key
  that is already in the current rate set (the id of such a rate is not read).
\<close>

definition generated_only :: "BoppRate list \<Rightarrow> BoppRate list \<Rightarrow> bool" where
  "generated_only cs fs = list_all (\<lambda>f. rate_id f = 0 \<or> rate_key f \<in> set (map rate_key cs)) fs"

fun updates_ok :: "int \<Rightarrow> update_call list \<Rightarrow> storage \<Rightarrow> bool" where
  "updates_ok t0 [] s = True"
| "updates_ok t0 ((now, newRates, userId, userName) # calls) s =
     (generated_only (fst (getBoppRates s)) newRates \<and>
      updates_ok t0 calls (updateBoppRates t0 now newRates userId userName s))"

text \<open>
  The id and the time of a history entry, and what one call does to the list of these
  pairs: the new pair in front, the first 50 kept.
\<close>

definition stamp :: "BoppRateHistory \<Rightarrow> nat \<times> int" where
  "stamp e = (hist_id e, changed_at e)"

definition stamps_step :: "update_call \<Rightarrow> (nat \<times> int) list \<Rightarrow> (nat \<times> int) list" where
  "stamps_step c st = take 50 ((fold max (map fst st) 0 + 1, fst c) # st)"

text \<open>A history list is newest-first when no entry is newer than one before it.\<close>

definition newest_first :: "BoppRateHistory list \<Rightarrow> bool" where
  "newest_first h = sorted_wrt (\<lambda>a b. changed_at b \<le> changed_at a) h"

text \<open>
  A map entry of a rate, the shape of every list that \<^verbatim>\<open>loadRatesFromFile\<close> returns
  (distinct keys, no missing id, the keys of the defaults first and in their order), and
  the value that a key has after a form: the one of the last rate of the form with that
  key, or the old one.
\<close>

definition entry_of :: "BoppRate \<Rightarrow> string \<times> BoppRate" where
  "entry_of r = (rate_key r, r)"

definition well_shaped :: "BoppRate list \<Rightarrow> bool" where
  "well_shaped cs \<longleftrightarrow>
     distinct (map rate_key cs) \<and> list_all (\<lambda>c. rate_id c \<noteq> 0) cs \<and>
     take (length initialDefaultRates) (map rate_key cs) = map rate_key initialDefaultRates"

definition last_value :: "string \<Rightarrow> BoppRate list \<Rightarrow> real \<Rightarrow> real" where
  "last_value k fs v =
     (case filter (\<lambda>f. rate_key f = k) fs of [] \<Rightarrow> v | f # r \<Rightarrow> rate_value (last (f # r)))"

section \<open>User store (\<^verbatim>\<open>actions/auth.ts\<close>)\<close>

definition initialMockUsers :: "AuthenticatedUser list" where
  "initialMockUsers =
    [\<lparr>user_id = ''admin'', user_name = ''Administrator'', role = Admin,
      password = None, otp = None, otp_created_at = None\<rparr>,
     \<lparr>user_id = ''employee'', user_name = ''Default Employee'', role = Employee,
      password = None, otp = None, otp_created_at = None\<rparr>,
     \<lparr>user_id = ''emp001'', user_name = ''Alice Smith'', role = Employee,
      password = None, otp = None, otp_created_at = None\<rparr>,
     \<lparr>user_id = ''adm001'', user_name = ''Bob Johnson (Admin)'', role = Admin,
      password = None, otp = None, otp_created_at = None\<rparr>]"

text \<open>
  \<^verbatim>\<open>loadUsersFromFile\<close>: the users of the file; a missing file is created with the
  default users; any other failure gives the default users and writes nothing.
  \<^verbatim>\<open>saveUsersToFile\<close> writes the whole list.
\<close>

definition loadUsersFromFile :: "storage \<Rightarrow> AuthenticatedUser list \<times> storage" where
  "loadUsersFromFile s =
     (case users_file s of
        File usersFromFile \<Rightarrow> (usersFromFile, s)
      | NoFile \<Rightarrow> (initialMockUsers, s\<lparr>users_file := File initialMockUsers\<rparr>)
      | BadFile \<Rightarrow> (initialMockUsers, s))"

definition saveUsersToFile :: "AuthenticatedUser list \<Rightarrow> storage \<Rightarrow> storage" where
  "saveUsersToFile users s = s\<lparr>users_file := File users\<rparr>"

text \<open>
  The responses. A response with \<^verbatim>\<open>success: false\<close> carries the error text; a
  successful login, and a successful \<^verbatim>\<open>fetchUserDetails\<close>, carries the user as
  \<^verbatim>\<open>{id, name, role}\<close>, a successful basic response its message and, from
  \<^verbatim>\<open>generateAndStoreOTP\<close>, the code.
\<close>

datatype LoginResponse = LoginOk AuthenticatedUser | LoginError string

datatype BasicResponse = BasicOk string "string option" | BasicError string

fun login_success :: "LoginResponse \<Rightarrow> bool" where
  "login_success (LoginOk u) = True"
| "login_success (LoginError e) = False"

fun basic_success :: "BasicResponse \<Rightarrow> bool" where
  "basic_success (BasicOk m c) = True"
| "basic_success (BasicError e) = False"

definition public_user :: "AuthenticatedUser \<Rightarrow> AuthenticatedUser" where
  "public_user user =
     \<lparr>user_id = user_id user, user_name = user_name user, role = role user,
      password = None, otp = None, otp_created_at = None\<rparr>"

text \<open>
  \<^verbatim>\<open>toLowerCase\<close>, on the ASCII letters; other characters are left as they are.
\<close>

definition lower_char :: "char \<Rightarrow> char" where
  "lower_char c =
     (if 65 \<le> (of_char c :: nat) \<and> (of_char c :: nat) \<le> 90 then char_of (of_char c + 32 :: nat) else c)"

definition toLowerCase :: "string \<Rightarrow> string" where
  "toLowerCase s = map lower_char s"

text \<open>What \<^verbatim>\<open>!x\<close> and \<^verbatim>\<open>if (x)\<close> test on an optional string: absent or empty.\<close>

fun truthy :: "string option \<Rightarrow> bool" where
  "truthy None = False"
| "truthy (Some x) = (x \<noteq> [])"

text \<open>
  An assignment to a field of the object that \<^verbatim>\<open>find\<close> or \<^verbatim>\<open>findIndex\<close> returned
  changes the first element of the array that passes the test.
\<close>

fun map_first :: "('a \<Rightarrow> bool) \<Rightarrow> ('a \<Rightarrow> 'a) \<Rightarrow> 'a list \<Rightarrow> 'a list" where
  "map_first P f [] = []"
| "map_first P f (x # xs) = (if P x then f x # xs else x # map_first P f xs)"

definition fetchUserDetails :: "string \<Rightarrow> storage \<Rightarrow> LoginResponse \<times> storage" where
  "fetchUserDetails userId s =
     (let (users, s') = loadUsersFromFile s in
      case find (\<lambda>u. toLowerCase (user_id u) = toLowerCase userId) users of
        Some user \<Rightarrow> (LoginOk (public_user user), s')
      | None \<Rightarrow> (LoginError ''User not found'', s'))"

definition loginUser :: "string \<Rightarrow> string option \<Rightarrow> storage \<Rightarrow> LoginResponse \<times> storage" where
  "loginUser userId pw s =
     (let (users, s') = loadUsersFromFile s in
      case find (\<lambda>u. user_id u = userId) users of
        None \<Rightarrow> (LoginError ''User not found'', s')
      | Some user \<Rightarrow>
          if role user = Admin then
            if user_id user = ''admin'' \<and> pw = Some ''admin'' then (LoginOk (public_user user), s')
            else if user_id user \<noteq> ''admin'' \<and> password user = pw then (LoginOk (public_user user), s')
            else (LoginError ''Invalid credentials for this admin user.'', s')
          else (LoginError ''Login method not applicable for this user type here.'', s'))"

text \<open>
  The code of \<^verbatim>\<open>generateAndStoreOTP\<close> is
  \<^verbatim>\<open>Math.floor(100000 + Math.random() * 900000).toString()\<close>: with \<open>rnd\<close> the integer
  part of \<^verbatim>\<open>Math.random() * 900000\<close>, the six decimal digits of \<open>100000 + rnd\<close>.
\<close>

definition six_digits :: "nat \<Rightarrow> string" where
  "six_digits n = map (\<lambda>i. char_of (48 + n div 10 ^ i mod 10)) [5, 4, 3, 2, 1, 0]"

definition new_otp :: "nat \<Rightarrow> string" where
  "new_otp rnd = six_digits (100000 + rnd mod 900000)"

definition generateAndStoreOTP :: "int \<Rightarrow> nat \<Rightarrow> string \<Rightarrow> storage \<Rightarrow> BasicResponse \<times> storage" where
  "generateAndStoreOTP now rnd userId s =
     (let (users, s') = loadUsersFromFile s;
          is_user = (\<lambda>u. user_id u = userId \<and> role u = Employee) in
      case find is_user users of
        Some user \<Rightarrow>
          (let newOtp = new_otp rnd;
               users' = map_first is_user (\<lambda>u. u\<lparr>otp := Some newOtp, otp_created_at := Some now\<rparr>) users
           in (BasicOk ''OTP generated successfully.'' (Some newOtp), saveUsersToFile users' s'))
      | None \<Rightarrow> (BasicError ''Failed to generate OTP. User not found or not an employee.'', s'))"

text \<open>
  \<^verbatim>\<open>verifyOtp\<close>. The test \<^verbatim>\<open>!user.otp || !user.otp_created_at\<close> gives one response
  whichever half fails. After \<^verbatim>\<open>loadUsersFromFile\<close> a creation time that is present is
  always a \<^verbatim>\<open>Date\<close>, so the branch that parses it again is never taken.
\<close>

definition verifyOtp :: "int \<Rightarrow> string \<Rightarrow> string \<Rightarrow> storage \<Rightarrow> LoginResponse \<times> storage" where
  "verifyOtp now userId code s =
     (let (users, s') = loadUsersFromFile s in
      case find (\<lambda>u. user_id u = userId \<and> role u = Employee) users of
        None \<Rightarrow> (LoginError ''User not found'', s')
      | Some user \<Rightarrow>
          (case otp_created_at user of
             None \<Rightarrow> (LoginError ''No active OTP found for this user. Please generate one.'', s')
           | Some otpCreatedAtTime \<Rightarrow>
               if \<not> truthy (otp user)
               then (LoginError ''No active OTP found for this user. Please generate one.'', s')
               else
                 (let otpAge = now - otpCreatedAtTime;
                      fiveMinutes = 5 * 60 * 1000
                  in if otpAge > fiveMinutes
                     then (LoginError ''OTP has expired. Please generate a new one.'', s')
                     else if Some code = otp user then (LoginOk (public_user user), s')
                     else (LoginError ''Invalid OTP'', s'))))"

definition addUser :: "string \<Rightarrow> string \<Rightarrow> string \<Rightarrow> Role \<Rightarrow> storage \<Rightarrow> BasicResponse \<times> storage" where
  "addUser userId userName passwordProvided rl s =
     (let (users, s') = loadUsersFromFile s in
      case find (\<lambda>u. toLowerCase (user_id u) = toLowerCase userId) users of
        Some existingUserById \<Rightarrow> (BasicError ''User with this ID already exists.'', s')
      | None \<Rightarrow>
          (let newUser = \<lparr>user_id = userId, user_name = userName, role = rl,
                          password = (if rl = Admin then Some passwordProvided else None),
                          otp = None, otp_created_at = None\<rparr>
           in (BasicOk (''User '' @ userName @ '' added successfully.'') None,
               saveUsersToFile (users @ [newUser]) s')))"

definition deleteUser :: "string \<Rightarrow> storage \<Rightarrow> BasicResponse \<times> storage" where
  "deleteUser userIdToDelete s =
     (let (users, s') = loadUsersFromFile s in
      if userIdToDelete = ''admin'' \<or> userIdToDelete = ''employee''
      then (BasicError (''The default '' @ [CHR 0x27] @ userIdToDelete @ [CHR 0x27] @ '' account cannot be deleted.''), s')
      else
        (let initialLength = length users;
             users' = filter (\<lambda>u. user_id u \<noteq> userIdToDelete) users
         in if length users' < initialLength
            then (BasicOk ''User deleted successfully.'' None, saveUsersToFile users' s')
            else (BasicError ''User not found.'', s')))"

definition updateAdminDetails ::
  "string \<Rightarrow> string \<Rightarrow> string option \<Rightarrow> storage \<Rightarrow> BasicResponse \<times> storage" where
  "updateAdminDetails adminId name newPassword s =
     (let (users, s') = loadUsersFromFile s;
          is_admin = (\<lambda>u. user_id u = adminId \<and> role u = Admin) in
      case find is_admin users of
        None \<Rightarrow> (BasicError ''Admin user not found.'', s')
      | Some adminUser \<Rightarrow>
          (let users' = map_first is_admin
                 (\<lambda>u. (if truthy newPassword then u\<lparr>password := newPassword\<rparr> else u)
                        \<lparr>user_name := (if name \<noteq> [] then name else user_name u)\<rparr>) users
           in (BasicOk ''Admin details updated successfully.'' None, saveUsersToFile users' s')))"

definition getAllUsers :: "storage \<Rightarrow> AuthenticatedUser list \<times> storage" where
  "getAllUsers s = loadUsersFromFile s"

definition revokeOTP :: "string \<Rightarrow> storage \<Rightarrow> BasicResponse \<times> storage" where
  "revokeOTP userId s =
     (let (users, s') = loadUsersFromFile s;
          is_user = (\<lambda>u. user_id u = userId \<and> role u = Employee) in
      case find is_user users of
        Some user \<Rightarrow>
          (let users' = map_first is_user (\<lambda>u. u\<lparr>otp := None, otp_created_at := None\<rparr>) users
           in (BasicOk (''OTP for '' @ user_name user @ '' has been revoked.'') None,
               saveUsersToFile users' s'))
      | None \<Rightarrow> (BasicError ''User not found or not an employee.'', s'))"

section \<open>Storage states used in the examples\<close>

text \<open>Nothing written yet: no file exists.\<close>

definition fresh_storage :: storage where
  "fresh_storage = \<lparr>rates_file = NoFile, history_file = NoFile, users_file = NoFile\<rparr>"

text \<open>Forty-nine calls without rates, at the times 1 to 49.\<close>

definition forty_nine_updates :: "update_call list" where
  "forty_nine_updates = map (\<lambda>n. (int n, [], ''admin'', ''Administrator'')) [1..<50]"

text \<open>A history file that has reached the cap of 50 entries.\<close>

definition full_history_storage :: storage where
  "full_history_storage =
     \<lparr>rates_file = NoFile,
      history_file = File (replicate 50
        \<lparr>hist_id = 1, changed_at = 0, changed_by_id = ''admin'',
         changed_by_name = ''Administrator'', rates_snapshot = []\<rparr>),
      users_file = NoFile\<rparr>"

text \<open>
  A users file with the primary admin, an employee whose code \<open>123456\<close> was created at
  time 1000, and a second admin with a password.
\<close>

definition sample_users :: "AuthenticatedUser list" where
  "sample_users =
    [\<lparr>user_id = ''admin'', user_name = ''Administrator'', role = Admin,
      password = None, otp = None, otp_created_at = None\<rparr>,
     \<lparr>user_id = ''emp001'', user_name = ''Alice Smith'', role = Employee,
      password = None, otp = Some ''123456'', otp_created_at = Some 1000\<rparr>,
     \<lparr>user_id = ''adm002'', user_name = ''Carol'', role = Admin,
      password = Some ''s3cret'', otp = None, otp_created_at = None\<rparr>]"

definition sample_storage :: storage where
  "sample_storage = \<lparr>rates_file = NoFile, history_file = NoFile, users_file = File sample_users\<rparr>"

section \<open>Association lists as insertion-ordered maps\<close>

lemma update_append_new: "k \<notin> fst ` set m \<Longrightarrow> AList.update k v m = m @ [(k, v)]"
  by (induction m) auto

lemma update_in_place:
  "k \<notin> fst ` set pre \<Longrightarrow> AList.update k v (pre @ (k, w) # suf) = pre @ (k, v) # suf"
  by (induction pre) auto

lemma fst_entry_of [simp]: "fst (entry_of r) = rate_key r"
  by (simp add: entry_of_def)

lemma snd_entry_of [simp]: "snd (entry_of r) = r"
  by (simp add: entry_of_def)

lemma map_snd_entry_of [simp]: "map (snd \<circ> entry_of) cs = cs"
  by (induction cs) auto

lemma map_fst_entry_of [simp]: "map (fst \<circ> entry_of) cs = map rate_key cs"
  by (induction cs) auto

lemma fold_update_same_keys:
  "distinct (map fst (pre @ suf)) \<Longrightarrow> map rate_key as = map fst suf \<Longrightarrow>
   fold (\<lambda>r. AList.update (rate_key r) r) as (pre @ suf) = pre @ map entry_of as"
proof (induction as arbitrary: pre suf)
  case Nil
  then show ?case by simp
next
  case (Cons a as)
  then obtain w suf' where suf: "suf = (rate_key a, w) # suf'" and ks: "map rate_key as = map fst suf'"
    by (cases suf) auto
  from Cons.prems(1) suf have notin: "rate_key a \<notin> fst ` set pre" by auto
  have d: "distinct (map fst ((pre @ [(rate_key a, a)]) @ suf'))"
    using Cons.prems(1) suf by auto
  have "fold (\<lambda>r. AList.update (rate_key r) r) (a # as) (pre @ suf)
        = fold (\<lambda>r. AList.update (rate_key r) r) as ((pre @ [(rate_key a, a)]) @ suf')"
    using suf notin by (simp add: update_in_place)
  also have "\<dots> = (pre @ [(rate_key a, a)]) @ map entry_of as"
    by (rule Cons.IH [OF d ks])
  finally show ?case by (simp add: entry_of_def)
qed

lemma fold_update_new_keys:
  "distinct (map rate_key bs) \<Longrightarrow> rate_key ` set bs \<inter> fst ` set m = {} \<Longrightarrow>
   fold (\<lambda>r. AList.update (rate_key r) r) bs m = m @ map entry_of bs"
proof (induction bs arbitrary: m)
  case Nil
  then show ?case by simp
next
  case (Cons b bs)
  from Cons.prems have nb: "rate_key b \<notin> fst ` set m" by auto
  have disj: "rate_key ` set bs \<inter> fst ` set (m @ [(rate_key b, b)]) = {}"
    using Cons.prems by auto
  have "fold (\<lambda>r. AList.update (rate_key r) r) (b # bs) m
        = fold (\<lambda>r. AList.update (rate_key r) r) bs (m @ [(rate_key b, b)])"
    using nb by (simp add: update_append_new)
  also have "\<dots> = (m @ [(rate_key b, b)]) @ map entry_of bs"
    using Cons.prems(1) by (intro Cons.IH [OF _ disj]) simp
  finally show ?case by (simp add: entry_of_def)
qed

lemma fold_update_from_empty:
  "distinct (map rate_key cs) \<Longrightarrow> fold (\<lambda>r. AList.update (rate_key r) r) cs [] = map entry_of cs"
  using fold_update_new_keys [of cs "[]"] by simp

lemma set_update_subset: "set (AList.update k v m) \<subseteq> insert (k, v) (set m)"
  by (induction m) auto

lemma update_preserves:
  "\<forall>e\<in>set m. P (fst e) (snd e) \<Longrightarrow> P k v \<Longrightarrow> \<forall>e\<in>set (AList.update k v m). P (fst e) (snd e)"
  using set_update_subset [of k v m] by auto

lemma take_keys_update:
  "n \<le> length m \<Longrightarrow> take n (map fst (AList.update k v m)) = take n (map fst m)"
  by (simp add: update_keys)

lemma length_update_ge: "length m \<le> length (AList.update k v m)"
  by (induction m) auto

lemma keys_of_values:
  "\<forall>e\<in>set m. rate_key (snd e) = fst e \<Longrightarrow> map (rate_key \<circ> snd) m = map fst m"
  by (induction m) simp_all

lemma filter_key_entry:
  "distinct (map fst m) \<Longrightarrow> \<forall>e\<in>set m. rate_key (snd e) = fst e \<Longrightarrow> map_of m k = Some c \<Longrightarrow>
   filter (\<lambda>x. rate_key x = k) (map snd m) = [c]"
proof (induction m)
  case Nil
  then show ?case by simp
next
  case (Cons e m)
  show ?case
  proof (cases "fst e = k")
    case True
    with Cons.prems(3) have c: "snd e = c" by (cases e) simp
    from Cons.prems(1) True have "k \<notin> fst ` set m" by auto
    with Cons.prems(2) have "\<forall>x\<in>set (map snd m). rate_key x \<noteq> k" by auto
    then have "filter (\<lambda>x. rate_key x = k) (map snd m) = []" by (simp only: filter_empty_conv)
    with True c Cons.prems(2) show ?thesis by simp
  next
    case False
    with Cons.prems(3) have "map_of m k = Some c" by (cases e) simp
    with Cons.IH Cons.prems(1,2) have "filter (\<lambda>x. rate_key x = k) (map snd m) = [c]" by simp
    with False Cons.prems(2) show ?thesis by simp
  qed
qed

lemma map_of_entries:
  "distinct (map rate_key cs) \<Longrightarrow> c \<in> set cs \<Longrightarrow> map_of (map entry_of cs) (rate_key c) = Some c"
proof -
  assume d: "distinct (map rate_key cs)" and c: "c \<in> set cs"
  have "distinct (map fst (map entry_of cs))" using d by simp
  moreover have "(rate_key c, c) \<in> set (map entry_of cs)" using c by (auto simp: entry_of_def)
  ultimately show ?thesis by (simp only: map_of_eq_Some_iff)
qed

lemma map_of_entries_None:
  "k \<notin> rate_key ` set cs \<Longrightarrow> map_of (map entry_of cs) k = None"
  by (simp add: map_of_eq_None_iff image_image)

lemma update_value_ids:
  "map_of m k = Some ex \<Longrightarrow>
   map (rate_id \<circ> snd) (AList.update k (ex\<lparr>rate_value := v\<rparr>) m) = map (rate_id \<circ> snd) m"
  by (induction m) (auto split: if_splits)

section \<open>What \<^verbatim>\<open>loadRatesFromFile\<close> returns\<close>

lemma overlay_file_nonzero:
  "list_all (\<lambda>r. rate_id r \<noteq> 0) rs \<Longrightarrow>
   fst (overlay_file rs (m, mx)) = fold (\<lambda>r. AList.update (rate_key r) r) rs m"
  by (induction rs arbitrary: m mx) auto

lemma seeded_defaults:
  "seed_defaults initialDefaultRates ([], max_default_id initialDefaultRates)
   = (map entry_of initialDefaultRates, 16)"
  by (simp add: initialDefaultRates_def max_default_id_def entry_of_def)

lemma distinct_default_keys: "distinct (map rate_key initialDefaultRates)"
  by (simp add: initialDefaultRates_def)

lemma overlay_file_distinct:
  "distinct (map fst m) \<Longrightarrow> distinct (map fst (fst (overlay_file rs (m, mx))))"
  by (induction rs arbitrary: m mx) (simp_all add: distinct_update)

lemma overlay_file_preserves:
  assumes "\<forall>e\<in>set m. P (fst e) (snd e)"
    and "\<forall>r\<in>set rs. \<forall>i. i \<noteq> 0 \<longrightarrow> P (rate_key r) (r\<lparr>rate_id := i\<rparr>)"
  shows "\<forall>e\<in>set (fst (overlay_file rs (m, mx))). P (fst e) (snd e)"
  using assms
proof (induction rs arbitrary: m mx)
  case Nil
  then show ?case by simp
next
  case (Cons r rs)
  from Cons.prems(2) have rest: "\<forall>r\<in>set rs. \<forall>i. i \<noteq> 0 \<longrightarrow> P (rate_key r) (r\<lparr>rate_id := i\<rparr>)"
    by simp
  show ?case
  proof (cases "rate_id r = 0")
    case True
    from Cons.prems(2) have "P (rate_key r) (r\<lparr>rate_id := mx + 1\<rparr>)" by simp
    then have "\<forall>e\<in>set (AList.update (rate_key r) (r\<lparr>rate_id := mx + 1\<rparr>) m). P (fst e) (snd e)"
      by (rule update_preserves [OF Cons.prems(1)])
    from Cons.IH [OF this rest] True show ?thesis by simp
  next
    case False
    from Cons.prems(2) have "\<forall>i. i \<noteq> 0 \<longrightarrow> P (rate_key r) (r\<lparr>rate_id := i\<rparr>)" by simp
    with False have "P (rate_key r) (r\<lparr>rate_id := rate_id r\<rparr>)" by blast
    then have "P (rate_key r) r" by simp
    then have "\<forall>e\<in>set (AList.update (rate_key r) r m). P (fst e) (snd e)"
      by (rule update_preserves [OF Cons.prems(1)])
    from Cons.IH [OF this rest] False show ?thesis by simp
  qed
qed

lemma overlay_file_prefix:
  "n \<le> length m \<Longrightarrow> take n (map fst (fst (overlay_file rs (m, mx)))) = take n (map fst m)"
proof (induction rs arbitrary: m mx)
  case Nil
  then show ?case by simp
next
  case (Cons r rs)
  show ?case
  proof (cases "rate_id r = 0")
    case True
    let ?m' = "AList.update (rate_key r) (r\<lparr>rate_id := mx + 1\<rparr>) m"
    have le: "n \<le> length ?m'"
      using Cons.prems length_update_ge [of m] by (rule order_trans)
    have "take n (map fst (fst (overlay_file rs (?m', mx + 1)))) = take n (map fst ?m')"
      by (rule Cons.IH [OF le])
    also have "\<dots> = take n (map fst m)"
      by (rule take_keys_update [OF Cons.prems])
    finally show ?thesis using True by simp
  next
    case False
    let ?m' = "AList.update (rate_key r) r m"
    let ?mx' = "if rate_id r > mx then rate_id r else mx"
    have le: "n \<le> length ?m'"
      using Cons.prems length_update_ge [of m] by (rule order_trans)
    have "take n (map fst (fst (overlay_file rs (?m', ?mx')))) = take n (map fst ?m')"
      by (rule Cons.IH [OF le])
    also have "\<dots> = take n (map fst m)"
      by (rule take_keys_update [OF Cons.prems])
    finally show ?thesis using False by simp
  qed
qed

lemma final_defaults: "finalDefaultRates = initialDefaultRates"
  by (simp add: finalDefaultRates_def initialDefaultRates_def max_default_id_def)

lemma default_ids_nonzero: "list_all (\<lambda>c. rate_id c \<noteq> 0) initialDefaultRates"
  by (simp add: initialDefaultRates_def)

lemma well_shaped_defaults: "well_shaped finalDefaultRates"
  using default_ids_nonzero by (simp add: well_shaped_def final_defaults distinct_default_keys)

lemma well_shaped_merge_with_defaults: "well_shaped (merge_with_defaults rs)"
proof -
  let ?D = "map entry_of initialDefaultRates"
  let ?m = "fst (overlay_file rs (?D, 16))"
  have k: "\<forall>e\<in>set ?m. rate_key (snd e) = fst e"
    by (rule overlay_file_preserves [where P = "\<lambda>k r. rate_key r = k"]) simp_all
  have d: "distinct (map fst ?m)"
    by (rule overlay_file_distinct) (simp add: distinct_default_keys)
  have "\<forall>e\<in>set ?D. rate_id (snd e) \<noteq> 0"
    using default_ids_nonzero by (simp add: list_all_iff)
  then have i: "\<forall>e\<in>set ?m. rate_id (snd e) \<noteq> 0"
    by (rule overlay_file_preserves [where P = "\<lambda>k r. rate_id r \<noteq> 0"]) simp
  have p: "take (length initialDefaultRates) (map fst ?m) = map rate_key initialDefaultRates"
    using overlay_file_prefix [of "length initialDefaultRates" ?D rs 16] by simp
  have v: "map (rate_key \<circ> snd) ?m = map fst ?m"
    by (rule keys_of_values [OF k])
  have "distinct (map rate_key (map snd ?m))"
    using d by (simp only: map_map v)
  moreover have "list_all (\<lambda>c. rate_id c \<noteq> 0) (map snd ?m)"
    using i by (simp add: list_all_iff)
  moreover have "take (length initialDefaultRates) (map rate_key (map snd ?m)) = map rate_key initialDefaultRates"
    using p by (simp only: map_map v)
  ultimately show ?thesis
    by (simp only: well_shaped_def merge_with_defaults_def seeded_defaults simp_thms)
qed

lemma well_shaped_load: "well_shaped (fst (loadRatesFromFile s))"
  by (simp add: loadRatesFromFile_def well_shaped_defaults well_shaped_merge_with_defaults
      split: json_file.splits)

lemma merge_with_defaults_idem:
  assumes "well_shaped cs"
  shows "merge_with_defaults cs = cs"
proof -
  let ?n = "length initialDefaultRates"
  let ?as = "take ?n cs" and ?bs = "drop ?n cs"
  let ?D = "map entry_of initialDefaultRates"
  from assms have dk: "distinct (map rate_key cs)" and nz: "list_all (\<lambda>c. rate_id c \<noteq> 0) cs"
    and pre: "take ?n (map rate_key cs) = map rate_key initialDefaultRates"
    by (simp_all add: well_shaped_def)
  have ka: "map rate_key ?as = map fst ?D"
    using pre by (simp add: take_map)
  have dD: "distinct (map fst ([] @ ?D))"
    using distinct_default_keys by (simp add: comp_def)
  have step1: "fold (\<lambda>r. AList.update (rate_key r) r) ?as ?D = map entry_of ?as"
    using fold_update_same_keys [OF dD ka] by simp
  have "map rate_key ?as @ map rate_key ?bs = map rate_key cs"
    by (simp only: map_append [symmetric] append_take_drop_id)
  with dk have dkk: "distinct (map rate_key ?as @ map rate_key ?bs)"
    by simp
  have db: "distinct (map rate_key ?bs)" using dkk by simp
  have disj: "rate_key ` set ?bs \<inter> fst ` set (map entry_of ?as) = {}"
  proof -
    have "set (map rate_key ?as) \<inter> set (map rate_key ?bs) = {}"
      using dkk by simp
    moreover have "fst ` set (map entry_of ?as) = set (map rate_key ?as)"
      by (simp add: image_image)
    ultimately show ?thesis by auto
  qed
  have step2: "fold (\<lambda>r. AList.update (rate_key r) r) ?bs (map entry_of ?as) = map entry_of ?as @ map entry_of ?bs"
    by (rule fold_update_new_keys [OF db disj])
  have "fold (\<lambda>r. AList.update (rate_key r) r) cs ?D
        = fold (\<lambda>r. AList.update (rate_key r) r) (?as @ ?bs) ?D"
    by (simp only: append_take_drop_id)
  also have "\<dots> = fold (\<lambda>r. AList.update (rate_key r) r) ?bs (fold (\<lambda>r. AList.update (rate_key r) r) ?as ?D)"
    by (simp only: fold_append comp_apply)
  also have "\<dots> = map entry_of ?as @ map entry_of ?bs"
    by (simp only: step1 step2)
  also have "\<dots> = map entry_of cs"
    by (simp only: map_append [symmetric] append_take_drop_id)
  finally have "fold (\<lambda>r. AList.update (rate_key r) r) cs ?D = map entry_of cs" .
  then show ?thesis
    by (simp add: merge_with_defaults_def seeded_defaults overlay_file_nonzero [OF nz])
qed

section \<open>The merge of a form into the rate set\<close>

lemma merge_form_cases [case_names existing supplied generated]:
  obtains ex where "map_of m (rate_key f) = Some ex"
      "merge_form (f # fs) (m, mx) =
         merge_form fs (AList.update (rate_key f) (ex\<lparr>rate_value := rate_value f\<rparr>) m, mx)"
  | "map_of m (rate_key f) = None" "rate_id f \<noteq> 0"
      "merge_form (f # fs) (m, mx) =
         merge_form fs (AList.update (rate_key f)
           \<lparr>rate_id = rate_id f, rate_key = rate_key f, rate_value = rate_value f\<rparr> m, mx)"
  | "map_of m (rate_key f) = None" "rate_id f = 0"
      "merge_form (f # fs) (m, mx) =
         merge_form fs (AList.update (rate_key f)
           \<lparr>rate_id = mx + 1, rate_key = rate_key f, rate_value = rate_value f\<rparr> m, mx + 1)"
  by (cases "map_of m (rate_key f)"; cases "rate_id f = 0") simp_all

lemma merge_form_distinct:
  "distinct (map fst m) \<Longrightarrow> distinct (map fst (fst (merge_form fs (m, mx))))"
proof (induction fs arbitrary: m mx)
  case Nil
  then show ?case by simp
next
  case (Cons f fs)
  show ?case
    by (cases rule: merge_form_cases [of m f fs mx])
       (simp_all only: Cons.IH [OF distinct_update [OF Cons.prems]])
qed

lemma merge_form_preserves:
  assumes "\<forall>e\<in>set m. P (fst e) (snd e)"
    and "\<And>k c v. P k c \<Longrightarrow> P k (c\<lparr>rate_value := v\<rparr>)"
    and "\<forall>f\<in>set fs. \<forall>i. i \<noteq> 0 \<longrightarrow>
           P (rate_key f) \<lparr>rate_id = i, rate_key = rate_key f, rate_value = rate_value f\<rparr>"
  shows "\<forall>e\<in>set (fst (merge_form fs (m, mx))). P (fst e) (snd e)"
  using assms(1,3)
proof (induction fs arbitrary: m mx)
  case Nil
  then show ?case by simp
next
  case (Cons f fs)
  from Cons.prems(2) have rest: "\<forall>f\<in>set fs. \<forall>i. i \<noteq> 0 \<longrightarrow>
      P (rate_key f) \<lparr>rate_id = i, rate_key = rate_key f, rate_value = rate_value f\<rparr>"
    by simp
  from Cons.prems(2) have new: "i \<noteq> 0 \<Longrightarrow>
      P (rate_key f) \<lparr>rate_id = i, rate_key = rate_key f, rate_value = rate_value f\<rparr>" for i
    by simp
  show ?case
  proof (cases rule: merge_form_cases [of m f fs mx])
    case (existing ex)
    from existing(1) have "(rate_key f, ex) \<in> set m" by (rule map_of_SomeD)
    with Cons.prems(1) have "P (rate_key f) ex" by fastforce
    then have "P (rate_key f) (ex\<lparr>rate_value := rate_value f\<rparr>)" by (rule assms(2))
    then have "\<forall>e\<in>set (AList.update (rate_key f) (ex\<lparr>rate_value := rate_value f\<rparr>) m). P (fst e) (snd e)"
      by (rule update_preserves [OF Cons.prems(1)])
    from Cons.IH [OF this rest] show ?thesis by (simp only: existing(2))
  next
    case supplied
    from new [OF supplied(2)]
    have "\<forall>e\<in>set (AList.update (rate_key f)
           \<lparr>rate_id = rate_id f, rate_key = rate_key f, rate_value = rate_value f\<rparr> m). P (fst e) (snd e)"
      by (rule update_preserves [OF Cons.prems(1)])
    from Cons.IH [OF this rest] show ?thesis by (simp only: supplied(3))
  next
    case generated
    have "mx + 1 \<noteq> 0" by simp
    from new [OF this]
    have "\<forall>e\<in>set (AList.update (rate_key f)
           \<lparr>rate_id = mx + 1, rate_key = rate_key f, rate_value = rate_value f\<rparr> m). P (fst e) (snd e)"
      by (rule update_preserves [OF Cons.prems(1)])
    from Cons.IH [OF this rest] show ?thesis by (simp only: generated(3))
  qed
qed

lemma merge_form_prefix:
  "n \<le> length m \<Longrightarrow> take n (map fst (fst (merge_form fs (m, mx)))) = take n (map fst m)"
proof (induction fs arbitrary: m mx)
  case Nil
  then show ?case by simp
next
  case (Cons f fs)
  have le: "n \<le> length (AList.update k v m)" for k v
    using Cons.prems length_update_ge [of m] by (rule order_trans)
  have step: "take n (map fst (fst (merge_form fs (AList.update k v m, mx')))) = take n (map fst m)" for k v mx'
    using Cons.IH [OF le, of k v mx'] take_keys_update [OF Cons.prems, of k v] by (rule trans)
  show ?case
    by (cases rule: merge_form_cases [of m f fs mx]) (simp_all only: step)
qed

lemma merge_form_key_set:
  "fst ` set (fst (merge_form fs (m, mx))) = fst ` set m \<union> rate_key ` set fs"
proof (induction fs arbitrary: m mx)
  case Nil
  then show ?case by simp
next
  case (Cons f fs)
  have step: "fst ` set (fst (merge_form fs (AList.update (rate_key f) v m, mx')))
              = fst ` set m \<union> rate_key ` set (f # fs)" for v mx'
    by (simp only: Cons.IH dom_update) auto
  show ?case
    by (cases rule: merge_form_cases [of m f fs mx]) (simp_all only: step)
qed

lemma last_value_Cons:
  "last_value k (f # fs) v = last_value k fs (if rate_key f = k then rate_value f else v)"
  by (simp add: last_value_def split: list.splits)

lemma last_value_present:
  "f \<in> set fs \<Longrightarrow> last_value (rate_key f) fs v = rate_value (last (filter (\<lambda>x. rate_key x = rate_key f) fs))"
proof -
  assume "f \<in> set fs"
  then have "f \<in> set (filter (\<lambda>x. rate_key x = rate_key f) fs)" by simp
  then obtain g gs where "filter (\<lambda>x. rate_key x = rate_key f) fs = g # gs"
    by (cases "filter (\<lambda>x. rate_key x = rate_key f) fs") auto
  then show ?thesis by (simp add: last_value_def)
qed

lemma last_value_absent: "k \<notin> rate_key ` set fs \<Longrightarrow> last_value k fs v = v"
proof -
  assume "k \<notin> rate_key ` set fs"
  then have "filter (\<lambda>x. rate_key x = k) fs = []" by (auto simp: filter_empty_conv)
  then show ?thesis by (simp add: last_value_def)
qed

lemma merge_form_existing:
  "map_of m k = Some c \<Longrightarrow>
   map_of (fst (merge_form fs (m, mx))) k = Some (c\<lparr>rate_value := last_value k fs (rate_value c)\<rparr>)"
proof (induction fs arbitrary: m mx c)
  case Nil
  then show ?case by (simp add: last_value_def)
next
  case (Cons f fs)
  show ?case
  proof (cases "rate_key f = k")
    case True
    with Cons.prems have ex: "map_of m (rate_key f) = Some c" by simp
    have "map_of (AList.update (rate_key f) (c\<lparr>rate_value := rate_value f\<rparr>) m) k
          = Some (c\<lparr>rate_value := rate_value f\<rparr>)"
      using True by (simp add: update_conv')
    from Cons.IH [OF this] ex True show ?thesis
      by (simp add: last_value_Cons)
  next
    case False
    have keep: "map_of (AList.update (rate_key f) v m) k = Some c" for v
      using False Cons.prems by (simp add: update_conv')
    show ?thesis
      by (cases rule: merge_form_cases [of m f fs mx])
         (simp_all only: Cons.IH [OF keep] last_value_Cons False if_False)
  qed
qed

lemma merge_form_absent:
  "map_of m k = None \<Longrightarrow> k \<notin> rate_key ` set fs \<Longrightarrow> map_of (fst (merge_form fs (m, mx))) k = None"
proof -
  assume "map_of m k = None" "k \<notin> rate_key ` set fs"
  then have "k \<notin> fst ` set m \<union> rate_key ` set fs"
    by (simp add: map_of_eq_None_iff)
  then have "k \<notin> fst ` set (fst (merge_form fs (m, mx)))"
    using merge_form_key_set [of fs m mx] by simp
  then show ?thesis by (simp add: map_of_eq_None_iff)
qed

lemma fold_max_ge: "a \<le> fold (\<lambda>r mx. max mx (rate_id r)) cs (a :: nat)"
proof (induction cs arbitrary: a)
  case Nil
  show ?case by simp
next
  case (Cons c cs)
  have "a \<le> max a (rate_id c)" by simp
  also have "\<dots> \<le> fold (\<lambda>r mx. max mx (rate_id r)) cs (max a (rate_id c))" by (rule Cons.IH)
  finally show ?case by simp
qed

lemma fold_max_bound: "c \<in> set cs \<Longrightarrow> rate_id c \<le> fold (\<lambda>r mx. max mx (rate_id r)) cs a"
proof (induction cs arbitrary: a)
  case Nil
  then show ?case by simp
next
  case (Cons d cs)
  show ?case
  proof (cases "c = d")
    case True
    have "rate_id c \<le> max a (rate_id d)" using True by simp
    also have "\<dots> \<le> fold (\<lambda>r mx. max mx (rate_id r)) cs (max a (rate_id d))" by (rule fold_max_ge)
    finally show ?thesis by simp
  next
    case False
    with Cons.prems have "c \<in> set cs" by simp
    from Cons.IH [OF this] show ?thesis by simp
  qed
qed

lemma merge_form_max_mono: "mx \<le> snd (merge_form fs (m, mx))"
proof (induction fs arbitrary: m mx)
  case Nil
  show ?case by simp
next
  case (Cons f fs)
  have a: "mx \<le> snd (merge_form fs (m', mx))" for m' by (rule Cons.IH)
  have "mx \<le> mx + 1" by simp
  also have "mx + 1 \<le> snd (merge_form fs (m', mx + 1))" for m' by (rule Cons.IH)
  finally have b: "mx \<le> snd (merge_form fs (m', mx + 1))" for m' .
  show ?case
    by (cases rule: merge_form_cases [of m f fs mx]) (simp_all only: a b)
qed

lemma merge_form_new:
  "map_of m k = None \<Longrightarrow> filter (\<lambda>f. rate_key f = k) fs = f0 # tl0 \<Longrightarrow>
   \<exists>c. map_of (fst (merge_form fs (m, mx))) k = Some c \<and> rate_key c = k \<and>
       rate_value c = rate_value (last (f0 # tl0)) \<and>
       (if rate_id f0 \<noteq> 0 then rate_id c = rate_id f0 else mx < rate_id c)"
proof (induction fs arbitrary: m mx)
  case Nil
  then show ?case by simp
next
  case (Cons f fs)
  show ?case
  proof (cases "rate_key f = k")
    case True
    with Cons.prems(2) have f0: "f0 = f" and tl0: "tl0 = filter (\<lambda>f. rate_key f = k) fs" by simp_all
    have lv: "last_value k fs (rate_value f) = rate_value (last (f0 # tl0))"
      using f0 tl0 by (simp add: last_value_def split: list.splits)
    from Cons.prems(1) True have none: "map_of m (rate_key f) = None" by simp
    show ?thesis
    proof (cases "rate_id f = 0")
      case False
      let ?c = "\<lparr>rate_id = rate_id f, rate_key = rate_key f, rate_value = rate_value f\<rparr>"
      have "map_of (AList.update (rate_key f) ?c m) k = Some ?c"
        using True by (simp add: update_conv')
      from merge_form_existing [OF this, of fs mx] none False True lv f0
      show ?thesis by simp
    next
      case zero: True
      let ?c = "\<lparr>rate_id = mx + 1, rate_key = rate_key f, rate_value = rate_value f\<rparr>"
      have "map_of (AList.update (rate_key f) ?c m) k = Some ?c"
        using True by (simp add: update_conv')
      from merge_form_existing [OF this, of fs "mx + 1"] none zero True lv f0
      show ?thesis by simp
    qed
  next
    case False
    with Cons.prems(2) have flt: "filter (\<lambda>f. rate_key f = k) fs = f0 # tl0" by simp
    have none: "map_of (AList.update (rate_key f) v m) k = None" for v
      using False Cons.prems(1) by (simp add: update_conv')
    have a: "\<exists>c. map_of (fst (merge_form fs (AList.update (rate_key f) v m, mx))) k = Some c \<and> rate_key c = k \<and>
       rate_value c = rate_value (last (f0 # tl0)) \<and>
       (if rate_id f0 \<noteq> 0 then rate_id c = rate_id f0 else mx < rate_id c)" for v
      by (rule Cons.IH [OF none flt])
    have b: "\<exists>c. map_of (fst (merge_form fs (AList.update (rate_key f) v m, mx + 1))) k = Some c \<and> rate_key c = k \<and>
       rate_value c = rate_value (last (f0 # tl0)) \<and>
       (if rate_id f0 \<noteq> 0 then rate_id c = rate_id f0 else mx < rate_id c)" for v
      using Cons.IH [OF none flt, of v "mx + 1"] by (auto split: if_splits)
    show ?thesis
      by (cases rule: merge_form_cases [of m f fs mx]) (simp_all only: a b)
  qed
qed

lemma merge_form_ids_distinct:
  assumes "distinct (map (rate_id \<circ> snd) m)"
    and "\<forall>e\<in>set m. rate_id (snd e) \<le> mx"
    and "\<forall>f\<in>set fs. rate_id f = 0 \<or> rate_key f \<in> fst ` set m"
  shows "distinct (map (rate_id \<circ> snd) (fst (merge_form fs (m, mx))))"
  using assms
proof (induction fs arbitrary: m mx)
  case Nil
  then show ?case by simp
next
  case (Cons f fs)
  from Cons.prems(3) have rest: "\<forall>g\<in>set fs. rate_id g = 0 \<or> rate_key g \<in> fst ` set (AList.update (rate_key f) v m)" for v
    by (auto simp: dom_update)
  show ?case
  proof (cases rule: merge_form_cases [of m f fs mx])
    case (existing ex)
    let ?m' = "AList.update (rate_key f) (ex\<lparr>rate_value := rate_value f\<rparr>) m"
    have d: "distinct (map (rate_id \<circ> snd) ?m')"
      using Cons.prems(1) by (simp only: update_value_ids [OF existing(1)])
    from existing(1) have "(rate_key f, ex) \<in> set m" by (rule map_of_SomeD)
    with Cons.prems(2) have "rate_id ex \<le> mx" by fastforce
    then have "rate_id (ex\<lparr>rate_value := rate_value f\<rparr>) \<le> mx" by simp
    then have b: "\<forall>e\<in>set ?m'. rate_id (snd e) \<le> mx"
      by (rule update_preserves [where P = "\<lambda>k r. rate_id r \<le> mx", OF Cons.prems(2)])
    from Cons.IH [OF d b rest] show ?thesis by (simp only: existing(2))
  next
    case supplied
    from supplied(1) have "rate_key f \<notin> fst ` set m" by (simp add: map_of_eq_None_iff)
    with Cons.prems(3) supplied(2) show ?thesis by simp
  next
    case generated
    let ?c = "\<lparr>rate_id = mx + 1, rate_key = rate_key f, rate_value = rate_value f\<rparr>"
    let ?m' = "AList.update (rate_key f) ?c m"
    from generated(1) have "rate_key f \<notin> fst ` set m" by (simp add: map_of_eq_None_iff)
    then have m': "?m' = m @ [(rate_key f, ?c)]" by (rule update_append_new)
    have "mx + 1 \<notin> set (map (rate_id \<circ> snd) m)"
      using Cons.prems(2) by fastforce
    then have d: "distinct (map (rate_id \<circ> snd) ?m')"
      unfolding m' using Cons.prems(1) by (simp add: comp_def)
    have b: "\<forall>e\<in>set ?m'. rate_id (snd e) \<le> mx + 1"
      unfolding m' using Cons.prems(2) by fastforce
    from Cons.IH [OF d b rest] show ?thesis by (simp only: generated(3))
  qed
qed

lemma updatedRates_alt:
  "distinct (map rate_key cs) \<Longrightarrow>
   updatedRates cs fs = map snd (fst (merge_form fs (map entry_of cs, fold (\<lambda>r mx. max mx (rate_id r)) cs 0)))"
  by (simp add: updatedRates_def fold_update_from_empty)


lemma well_shaped_updatedRates:
  assumes "well_shaped cs"
  shows "well_shaped (updatedRates cs fs)"
proof -
  let ?mx = "fold (\<lambda>r mx. max mx (rate_id r)) cs 0"
  let ?m = "fst (merge_form fs (map entry_of cs, ?mx))"
  from assms have dk: "distinct (map rate_key cs)" and nz: "list_all (\<lambda>c. rate_id c \<noteq> 0) cs"
    and pre: "take (length initialDefaultRates) (map rate_key cs) = map rate_key initialDefaultRates"
    by (simp_all add: well_shaped_def)
  have len: "length initialDefaultRates \<le> length (map entry_of cs)"
  proof -
    have "length (take (length initialDefaultRates) (map rate_key cs)) = length initialDefaultRates"
      by (simp only: pre length_map)
    then show ?thesis by simp
  qed
  have k: "\<forall>e\<in>set ?m. rate_key (snd e) = fst e"
    by (rule merge_form_preserves [where P = "\<lambda>k r. rate_key r = k"]) simp_all
  have d: "distinct (map fst ?m)"
    by (rule merge_form_distinct) (simp add: dk)
  have "\<forall>e\<in>set (map entry_of cs). rate_id (snd e) \<noteq> 0"
    using nz by (simp add: list_all_iff)
  then have i: "\<forall>e\<in>set ?m. rate_id (snd e) \<noteq> 0"
    by (rule merge_form_preserves [where P = "\<lambda>k r. rate_id r \<noteq> 0"]) simp_all
  have p: "take (length initialDefaultRates) (map fst ?m) = map rate_key initialDefaultRates"
    using merge_form_prefix [OF len, of fs ?mx] pre by simp
  have v: "map (rate_key \<circ> snd) ?m = map fst ?m"
    by (rule keys_of_values [OF k])
  have "distinct (map rate_key (map snd ?m))"
    using d by (simp only: map_map v)
  moreover have "list_all (\<lambda>c. rate_id c \<noteq> 0) (map snd ?m)"
    using i by (simp add: list_all_iff)
  moreover have "take (length initialDefaultRates) (map rate_key (map snd ?m)) = map rate_key initialDefaultRates"
    using p by (simp only: map_map v)
  ultimately show ?thesis
    by (simp only: well_shaped_def updatedRates_alt [OF dk] simp_thms)
qed

lemma updatedRates_ids_distinct:
  assumes "distinct (map rate_key cs)" and "distinct (map rate_id cs)" and "generated_only cs fs"
  shows "distinct (map rate_id (updatedRates cs fs))"
proof -
  let ?mx = "fold (\<lambda>r mx. max mx (rate_id r)) cs 0"
  have a: "distinct (map (rate_id \<circ> snd) (map entry_of cs))"
    using assms(2) by (simp add: comp_def)
  have b: "\<forall>e\<in>set (map entry_of cs). rate_id (snd e) \<le> ?mx"
    by (simp add: fold_max_bound)
  have c: "\<forall>f\<in>set fs. rate_id f = 0 \<or> rate_key f \<in> fst ` set (map entry_of cs)"
    using assms(3) by (simp add: generated_only_def list_all_iff image_image)
  from merge_form_ids_distinct [OF a b c]
  show ?thesis by (simp add: updatedRates_alt [OF assms(1)])
qed

lemma merged_map_facts:
  fixes cs fs
  defines "m \<equiv> fst (merge_form fs (map entry_of cs, fold (\<lambda>r mx. max mx (rate_id r)) cs 0))"
  assumes "distinct (map rate_key cs)"
  shows "distinct (map fst m)" and "\<forall>e\<in>set m. rate_key (snd e) = fst e" and "updatedRates cs fs = map snd m"
proof -
  show "distinct (map fst m)"
    unfolding m_def by (rule merge_form_distinct) (simp add: assms(2))
  show "\<forall>e\<in>set m. rate_key (snd e) = fst e"
    unfolding m_def by (rule merge_form_preserves [where P = "\<lambda>k r. rate_key r = k"]) simp_all
  show "updatedRates cs fs = map snd m"
    unfolding m_def by (rule updatedRates_alt [OF assms(2)])
qed

lemma updatedRates_existing:
  assumes "distinct (map rate_key cs)" and "c \<in> set cs"
  shows "filter (\<lambda>x. rate_key x = rate_key c) (updatedRates cs fs)
         = [c\<lparr>rate_value := last_value (rate_key c) fs (rate_value c)\<rparr>]"
proof -
  let ?m = "fst (merge_form fs (map entry_of cs, fold (\<lambda>r mx. max mx (rate_id r)) cs 0))"
  have "map_of ?m (rate_key c) = Some (c\<lparr>rate_value := last_value (rate_key c) fs (rate_value c)\<rparr>)"
    by (rule merge_form_existing [OF map_of_entries [OF assms]])
  from filter_key_entry [OF merged_map_facts(1,2) [OF assms(1)] this]
  show ?thesis by (simp only: merged_map_facts(3) [OF assms(1)])
qed

lemma updatedRates_new:
  assumes "distinct (map rate_key cs)" and "k \<notin> rate_key ` set cs"
    and "filter (\<lambda>f. rate_key f = k) fs = f0 # tl0"
  shows "\<exists>c. filter (\<lambda>x. rate_key x = k) (updatedRates cs fs) = [c] \<and> rate_key c = k \<and>
           rate_value c = rate_value (last (f0 # tl0)) \<and>
           (if rate_id f0 \<noteq> 0 then rate_id c = rate_id f0 else \<forall>c0\<in>set cs. rate_id c0 < rate_id c)"
proof -
  let ?mx = "fold (\<lambda>r mx. max mx (rate_id r)) cs 0"
  let ?m = "fst (merge_form fs (map entry_of cs, ?mx))"
  from merge_form_new [OF map_of_entries_None [OF assms(2)] assms(3), of ?mx]
  obtain c where c: "map_of ?m k = Some c" "rate_key c = k" "rate_value c = rate_value (last (f0 # tl0))"
      "if rate_id f0 \<noteq> 0 then rate_id c = rate_id f0 else ?mx < rate_id c"
    by blast
  have flt: "filter (\<lambda>x. rate_key x = k) (updatedRates cs fs) = [c]"
    using filter_key_entry [OF merged_map_facts(1,2) [OF assms(1)] c(1)]
    by (simp only: merged_map_facts(3) [OF assms(1)])
  have "\<forall>c0\<in>set cs. rate_id c0 < rate_id c" if "?mx < rate_id c"
  proof
    fix c0 assume "c0 \<in> set cs"
    then have "rate_id c0 \<le> ?mx" by (rule fold_max_bound)
    with that show "rate_id c0 < rate_id c" by simp
  qed
  with c(4) have "if rate_id f0 \<noteq> 0 then rate_id c = rate_id f0 else \<forall>c0\<in>set cs. rate_id c0 < rate_id c"
    by (simp split: if_splits)
  with flt c(2,3) show ?thesis by blast
qed

lemma updatedRates_keys:
  assumes "distinct (map rate_key cs)"
  shows "rate_key ` set (updatedRates cs fs) = rate_key ` set cs \<union> rate_key ` set fs"
proof -
  let ?m = "fst (merge_form fs (map entry_of cs, fold (\<lambda>r mx. max mx (rate_id r)) cs 0))"
  have "map rate_key (map snd ?m) = map fst ?m"
    using keys_of_values [OF merged_map_facts(2) [OF assms]] by simp
  then have "set (map rate_key (updatedRates cs fs)) = set (map fst ?m)"
    by (simp only: merged_map_facts(3) [OF assms])
  then have "rate_key ` set (updatedRates cs fs) = fst ` set ?m" by simp
  also have "\<dots> = fst ` set (map entry_of cs) \<union> rate_key ` set fs" by (rule merge_form_key_set)
  also have "fst ` set (map entry_of cs) = rate_key ` set cs" by (simp add: image_image)
  finally show ?thesis .
qed

section \<open>The files after an update\<close>

lemma load_history_rates [simp]: "rates_file (snd (loadHistoryFromFile t0 s)) = rates_file s"
  by (simp add: loadHistoryFromFile_def split: json_file.splits)

lemma load_history_users [simp]: "users_file (snd (loadHistoryFromFile t0 s)) = users_file s"
  by (simp add: loadHistoryFromFile_def split: json_file.splits)

lemma load_rates_history [simp]: "history_file (snd (loadRatesFromFile s)) = history_file s"
  by (simp add: loadRatesFromFile_def split: json_file.splits)

lemma load_rates_users [simp]: "users_file (snd (loadRatesFromFile s)) = users_file s"
  by (simp add: loadRatesFromFile_def split: json_file.splits)

lemma load_history_after_rates [simp]:
  "fst (loadHistoryFromFile t0 (snd (loadRatesFromFile s))) = fst (loadHistoryFromFile t0 s)"
  by (simp add: loadHistoryFromFile_def split: json_file.splits)

lemma update_rates_file:
  "rates_file (updateBoppRates t0 now fs userId userName s) = File (updatedRates (fst (loadRatesFromFile s)) fs)"
  by (simp add: updateBoppRates_def saveHistoryToFile_def saveRatesToFile_def split_beta Let_def)

lemma update_history_file:
  "history_file (updateBoppRates t0 now fs userId userName s)
   = File (take 50 (new_entry t0 now userId userName s # fst (loadHistoryFromFile t0 s)))"
  by (simp add: updateBoppRates_def saveHistoryToFile_def saveRatesToFile_def split_beta Let_def new_entry_def)

lemma update_users_file:
  "users_file (updateBoppRates t0 now fs userId userName s) = users_file s"
  by (simp add: updateBoppRates_def saveHistoryToFile_def saveRatesToFile_def split_beta Let_def)

lemma rates_after_update:
  "fst (getBoppRates (updateBoppRates t0 now fs userId userName s)) = updatedRates (fst (getBoppRates s)) fs"
proof -
  have "well_shaped (updatedRates (fst (loadRatesFromFile s)) fs)"
    by (rule well_shaped_updatedRates [OF well_shaped_load])
  then show ?thesis
    by (simp add: getBoppRates_def loadRatesFromFile_def [of "updateBoppRates t0 now fs userId userName s"]
        update_rates_file merge_with_defaults_idem)
qed

lemma history_after_update:
  "fst (loadHistoryFromFile t0' (updateBoppRates t0 now fs userId userName s))
   = take 50 (new_entry t0 now userId userName s # fst (loadHistoryFromFile t0 s))"
  by (simp add: loadHistoryFromFile_def [of t0' "updateBoppRates t0 now fs userId userName s"] update_history_file)

lemma load_distinct_keys: "distinct (map rate_key (fst (getBoppRates s)))"
  using well_shaped_load [of s] by (simp add: well_shaped_def getBoppRates_def)

lemma newHistoryId_Max: "newHistoryId h = Max (insert 0 (hist_id ` set h)) + 1"
proof (cases h)
  case Nil
  then show ?thesis by (simp add: newHistoryId_def)
next
  case (Cons e es)
  have "fold max (map hist_id h) 0 = Max (set (0 # map hist_id h))"
    by (simp only: Max.set_eq_fold)
  with Cons show ?thesis by (simp add: newHistoryId_def)
qed

lemma getRateHistory_fst: "fst (getRateHistory t0 limit s) = slice_to (fst (loadHistoryFromFile t0 s)) limit"
  by (simp add: getRateHistory_def split_beta)

lemma getRateHistory_snd: "snd (getRateHistory t0 limit s) = snd (loadHistoryFromFile t0 s)"
  by (simp add: getRateHistory_def split_beta)

lemma apply_updates_snoc:
  "apply_updates t0 (calls @ [(now, newRates, userId, userName)]) s
   = updateBoppRates t0 now newRates userId userName (apply_updates t0 calls s)"
  by (induction t0 calls s rule: apply_updates.induct) simp_all

lemma sorted_take_drop:
  "sorted_wrt (\<lambda>a b. changed_at b \<le> changed_at a) h \<Longrightarrow> k \<in> set (take n h) \<Longrightarrow> d \<in> set (drop n h) \<Longrightarrow>
   changed_at d \<le> changed_at k"
proof -
  assume s: "sorted_wrt (\<lambda>a b. changed_at b \<le> changed_at a) h" and k: "k \<in> set (take n h)" and d: "d \<in> set (drop n h)"
  from s have "sorted_wrt (\<lambda>a b. changed_at b \<le> changed_at a) (take n h @ drop n h)" by simp
  then have "\<forall>x\<in>set (take n h). \<forall>y\<in>set (drop n h). changed_at y \<le> changed_at x"
    by (simp only: sorted_wrt_append) simp
  with k d show ?thesis by blast
qed

lemma update_step_ids:
  assumes "distinct (map rate_id (fst (getBoppRates s)))"
    and "generated_only (fst (getBoppRates s)) newRates"
  shows "distinct (map rate_id (fst (getBoppRates (updateBoppRates t0 now newRates userId userName s))))"
  by (simp only: rates_after_update updatedRates_ids_distinct [OF load_distinct_keys assms])

lemma apply_updates_ids:
  "distinct (map rate_id (fst (getBoppRates s))) \<Longrightarrow> updates_ok t0 calls s \<Longrightarrow>
   distinct (map rate_id (fst (getBoppRates (apply_updates t0 calls s))))"
proof (induction t0 calls s rule: apply_updates.induct)
  case (1 t0 s)
  then show ?case by simp
next
  case (2 t0 now newRates userId userName calls s)
  from "2.prems"(2) have g: "generated_only (fst (getBoppRates s)) newRates"
    and ok: "updates_ok t0 calls (updateBoppRates t0 now newRates userId userName s)"
    by simp_all
  from "2.IH" [OF update_step_ids [OF "2.prems"(1) g] ok] show ?case by simp
qed

lemma generated_ids_fresh:
  assumes g: "generated_only (fst (getBoppRates s)) newRates"
    and c: "c \<in> set (fst (getBoppRates (updateBoppRates t0 now newRates userId userName s)))"
    and new: "rate_key c \<notin> rate_key ` set (fst (getBoppRates s))"
  shows "\<forall>c0\<in>set (fst (getBoppRates s)). rate_id c0 < rate_id c"
proof -
  let ?cs = "fst (getBoppRates s)"
  let ?k = "rate_key c"
  have dk: "distinct (map rate_key ?cs)" by (rule load_distinct_keys)
  from c have c': "c \<in> set (updatedRates ?cs newRates)" by (simp only: rates_after_update)
  then have "?k \<in> rate_key ` set (updatedRates ?cs newRates)" by (rule imageI)
  with new have "?k \<in> rate_key ` set newRates" by (simp only: updatedRates_keys [OF dk]) simp
  then obtain f0 tl0 where flt: "filter (\<lambda>f. rate_key f = ?k) newRates = f0 # tl0"
    by (cases "filter (\<lambda>f. rate_key f = ?k) newRates") (auto simp: filter_empty_conv)
  then have "f0 \<in> set (filter (\<lambda>f. rate_key f = ?k) newRates)" by simp
  then have f0: "f0 \<in> set newRates" "rate_key f0 = ?k" by simp_all
  from g f0(1) have "rate_id f0 = 0 \<or> rate_key f0 \<in> rate_key ` set ?cs"
    by (simp add: generated_only_def list_all_iff)
  with new f0(2) have zero: "rate_id f0 = 0" by simp
  from updatedRates_new [OF dk new flt] zero
  obtain c1 where c1: "filter (\<lambda>x. rate_key x = ?k) (updatedRates ?cs newRates) = [c1]"
      "\<forall>c0\<in>set ?cs. rate_id c0 < rate_id c1" by auto
  from c' have "c \<in> set (filter (\<lambda>x. rate_key x = ?k) (updatedRates ?cs newRates))" by simp
  with c1(1) have "c = c1" by simp
  with c1(2) show ?thesis by simp
qed

section \<open>The history after a sequence of updates\<close>

lemma history_length_at_most_50:
  "calls \<noteq> [] \<Longrightarrow> \<exists>h. history_file (apply_updates t0 calls s) = File h \<and> length h \<le> 50"
proof -
  assume "calls \<noteq> []"
  then obtain c cs where calls: "calls = cs @ [c]" by (cases calls rule: rev_cases) auto
  obtain now' rs u n where c: "c = (now', rs, u, n)" by (cases c)
  have "history_file (apply_updates t0 calls s)
        = File (take 50 (new_entry t0 now' u n (apply_updates t0 cs s)
                 # fst (loadHistoryFromFile t0 (apply_updates t0 cs s))))"
    by (simp only: calls c apply_updates_snoc update_history_file)
  then show ?thesis by simp
qed

lemma newHistoryId_fold: "newHistoryId h = fold max (map hist_id h) 0 + 1"
  by (cases h) (simp_all add: newHistoryId_def)

lemma stamps_after_update:
  "map stamp (fst (loadHistoryFromFile t0 (updateBoppRates t0 now newRates userId userName s)))
   = stamps_step (now, newRates, userId, userName) (map stamp (fst (loadHistoryFromFile t0 s)))"
proof -
  have ids: "map (fst \<circ> stamp) h = map hist_id h" for h
    by (induction h) (simp_all add: stamp_def)
  have "stamp (new_entry t0 now userId userName s)
      = (fold max (map fst (map stamp (fst (loadHistoryFromFile t0 s)))) 0 + 1, now)"
    by (simp add: stamp_def new_entry_def newHistoryId_fold ids)
  then show ?thesis
    by (simp add: history_after_update stamps_step_def take_map)
qed

lemma stamps_after_updates:
  "map stamp (fst (loadHistoryFromFile t0 (apply_updates t0 calls s)))
   = fold stamps_step calls (map stamp (fst (loadHistoryFromFile t0 s)))"
proof (induction t0 calls s rule: apply_updates.induct)
  case (1 t0 s)
  show ?case by simp
next
  case (2 t0 now newRates userId userName calls s)
  then show ?case by (simp add: stamps_after_update)
qed

lemma fresh_stamps: "map stamp (fst (loadHistoryFromFile 0 fresh_storage)) = [(1, - 172800000), (2, - 86400000)]"
  by (simp add: loadHistoryFromFile_def fresh_storage_def initialMockRateHistory_def stamp_def)

lemma times_after_update:
  "map changed_at (fst (loadHistoryFromFile t0 (updateBoppRates t0 now newRates userId userName s)))
   = take 50 (now # map changed_at (fst (loadHistoryFromFile t0 s)))"
  by (simp add: history_after_update new_entry_def take_map)

lemma take_Cons_take: "0 < n \<Longrightarrow> take n (x # take n xs) = take n (x # xs)"
  by (cases n) simp_all

lemma set_take_take: "set (take n (take m xs)) \<subseteq> set (take n xs)"
proof -
  have "take n (take m xs) = take (min n m) xs" by (rule take_take)
  moreover have "set (take (min n m) xs) \<subseteq> set (take n xs)"
    by (rule set_take_subset_set_take) simp
  ultimately show ?thesis by simp
qed

lemma times_after_updates:
  "calls \<noteq> [] \<Longrightarrow>
   map changed_at (fst (loadHistoryFromFile t0 (apply_updates t0 calls s)))
   = take 50 (rev (map fst calls) @ map changed_at (fst (loadHistoryFromFile t0 s)))"
proof (induction calls rule: rev_nonempty_induct)
  case (single c)
  obtain now newRates userId userName where c: "c = (now, newRates, userId, userName)" by (cases c)
  show ?case by (simp add: c times_after_update)
next
  case (snoc c calls)
  obtain now newRates userId userName where c: "c = (now, newRates, userId, userName)" by (cases c)
  have "map changed_at (fst (loadHistoryFromFile t0 (apply_updates t0 (calls @ [c]) s)))
        = take 50 (now # map changed_at (fst (loadHistoryFromFile t0 (apply_updates t0 calls s))))"
    by (simp only: c apply_updates_snoc times_after_update)
  also have "\<dots> = take 50 (now # take 50 (rev (map fst calls) @ map changed_at (fst (loadHistoryFromFile t0 s))))"
    by (simp only: snoc.IH)
  also have "\<dots> = take 50 (now # rev (map fst calls) @ map changed_at (fst (loadHistoryFromFile t0 s)))"
    by (rule take_Cons_take) simp
  finally show ?case by (simp add: c)
qed

lemma newest_prefix:
  fixes x y :: int
  assumes "sorted nows" and "\<forall>t\<in>set ts0. \<forall>z\<in>set nows. t \<le> z" and "n \<le> length nows"
    and x: "x \<in> set (take n (take 50 (rev nows @ ts0)))"
    and y: "y \<in> set (drop n (take 50 (rev nows @ ts0)))"
  shows "y \<le> x"
proof -
  have "set (take n (take 50 (rev nows @ ts0))) \<subseteq> set (take n (rev nows @ ts0))"
    by (rule set_take_take)
  with x have "x \<in> set (take n (rev nows @ ts0))" by blast
  with assms(3) have x': "x \<in> set (take n (rev nows))" by simp
  then have xn: "x \<in> set nows" by (auto dest: in_set_takeD)
  from y have "y \<in> set (take (50 - n) (drop n (rev nows @ ts0)))" by (simp only: drop_take)
  then have "y \<in> set (drop n (rev nows @ ts0))" by (rule in_set_takeD)
  with assms(3) have "y \<in> set (drop n (rev nows)) \<or> y \<in> set ts0" by auto
  then show ?thesis
  proof
    assume y': "y \<in> set (drop n (rev nows))"
    have "sorted_wrt (\<lambda>a b. b \<le> a) (take n (rev nows) @ drop n (rev nows))"
      using assms(1) by (simp add: sorted_wrt_rev)
    then have "\<forall>a\<in>set (take n (rev nows)). \<forall>b\<in>set (drop n (rev nows)). b \<le> a"
      by (simp only: sorted_wrt_append) simp
    with x' y' show ?thesis by blast
  next
    assume "y \<in> set ts0"
    with assms(2) xn show ?thesis by blast
  qed
qed

lemma newest_after_updates:
  assumes "sorted (map fst calls)"
    and "\<forall>e\<in>set (fst (loadHistoryFromFile t0 s)). \<forall>c\<in>set calls. changed_at e \<le> fst c"
    and "n \<le> length calls"
    and e: "e \<in> set (take n (fst (loadHistoryFromFile t0 (apply_updates t0 calls s))))"
    and d: "d \<in> set (drop n (fst (loadHistoryFromFile t0 (apply_updates t0 calls s))))"
  shows "changed_at d \<le> changed_at e"
proof (cases "calls = []")
  case True
  with assms(3) e show ?thesis by simp
next
  case False
  let ?H = "fst (loadHistoryFromFile t0 (apply_updates t0 calls s))"
  let ?L = "take 50 (rev (map fst calls) @ map changed_at (fst (loadHistoryFromFile t0 s)))"
  have T: "map changed_at ?H = ?L" by (rule times_after_updates [OF False])
  from e have "changed_at e \<in> set (take n (map changed_at ?H))" by (simp add: take_map)
  then have x: "changed_at e \<in> set (take n ?L)" by (simp only: T)
  from d have "changed_at d \<in> set (drop n (map changed_at ?H))" by (simp add: drop_map)
  then have y: "changed_at d \<in> set (drop n ?L)" by (simp only: T)
  have b: "\<forall>t\<in>set (map changed_at (fst (loadHistoryFromFile t0 s))). \<forall>z\<in>set (map fst calls). t \<le> z"
    using assms(2) by auto
  have n: "n \<le> length (map fst calls)" using assms(3) by simp
  show ?thesis by (rule newest_prefix [OF assms(1) b n x y])
qed

section \<open>Lemmas about the user store\<close>

lemma find_distinct_id:
  "distinct (map user_id users) \<Longrightarrow>
   (find (\<lambda>u. user_id u = i \<and> P u) users = Some u) = (u \<in> set users \<and> user_id u = i \<and> P u)"
  by (induction users) (auto simp: image_iff)

lemma find_None_id: "(find (\<lambda>u. user_id u = i \<and> P u) users = None) = (\<forall>u\<in>set users. user_id u = i \<longrightarrow> \<not> P u)"
  by (induction users) auto

lemma load_users_unchanged:
  "users_file s \<noteq> NoFile \<Longrightarrow> snd (loadUsersFromFile s) = s"
  by (auto simp: loadUsersFromFile_def split: json_file.splits)

lemma load_after_save:
  "loadUsersFromFile (saveUsersToFile users s) = (users, saveUsersToFile users s)"
  by (simp add: loadUsersFromFile_def saveUsersToFile_def)

lemma map_first_ids:
  "(\<And>u. user_id (f u) = user_id u) \<Longrightarrow> map user_id (map_first P f users) = map user_id users"
  by (induction users) simp_all

lemma default_users_distinct: "distinct (map user_id initialMockUsers)"
  by (simp add: initialMockUsers_def)

lemma loaded_users_of_file:
  "users_file s = File users \<Longrightarrow> loadUsersFromFile s = (users, s)"
  by (simp add: loadUsersFromFile_def)

text \<open>
  The user ids of the default users are distinct, and every operation that writes the
  users file keeps them distinct: \<^verbatim>\<open>addUser\<close> refuses an id that is already there.
\<close>

lemma user_ids_stay_distinct:
  assumes "distinct (map user_id (fst (loadUsersFromFile s)))"
  shows "distinct (map user_id (fst (loadUsersFromFile (snd (addUser userId userName pwd rl s)))))"
    and "distinct (map user_id (fst (loadUsersFromFile (snd (deleteUser userId s)))))"
    and "distinct (map user_id (fst (loadUsersFromFile (snd (generateAndStoreOTP now rnd userId s)))))"
    and "distinct (map user_id (fst (loadUsersFromFile (snd (updateAdminDetails userId userName newPassword s)))))"
    and "distinct (map user_id (fst (loadUsersFromFile (snd (revokeOTP userId s)))))"
proof -
  obtain users s' where ld: "loadUsersFromFile s = (users, s')" by (cases "loadUsersFromFile s")
  with assms have d: "distinct (map user_id users)" by simp
  have ld': "fst (loadUsersFromFile s') = users"
    using ld by (auto simp: loadUsersFromFile_def split: json_file.splits)
  have fresh: "userId \<notin> user_id ` set users"
    if "find (\<lambda>u. toLowerCase (user_id u) = toLowerCase userId) users = None"
    using that by (auto simp: find_None_iff)
  show "distinct (map user_id (fst (loadUsersFromFile (snd (addUser userId userName pwd rl s)))))"
    using d fresh by (auto simp: addUser_def ld ld' load_after_save split: option.splits)
  show "distinct (map user_id (fst (loadUsersFromFile (snd (deleteUser userId s)))))"
    using d by (simp add: deleteUser_def ld ld' load_after_save Let_def distinct_map_filter)
  show "distinct (map user_id (fst (loadUsersFromFile (snd (generateAndStoreOTP now rnd userId s)))))"
    using d by (simp add: generateAndStoreOTP_def ld ld' load_after_save Let_def map_first_ids split: option.splits)
  show "distinct (map user_id (fst (loadUsersFromFile (snd (updateAdminDetails userId userName newPassword s)))))"
    using d by (simp add: updateAdminDetails_def ld ld' load_after_save Let_def map_first_ids split: option.splits)
  show "distinct (map user_id (fst (loadUsersFromFile (snd (revokeOTP userId s)))))"
    using d by (simp add: revokeOTP_def ld ld' load_after_save Let_def map_first_ids split: option.splits)
qed

lemma sample_loaded: "fst (loadUsersFromFile sample_storage) = sample_users"
  by (simp add: loadUsersFromFile_def sample_storage_def)

lemma sample_distinct: "distinct (map user_id (fst (loadUsersFromFile sample_storage)))"
  by (simp add: sample_loaded sample_users_def)

section \<open>Properties of the rate store\<close>

text \<open>
  Claim C2. For every call of \<^verbatim>\<open>updateBoppRates\<close>, in every storage state, the history
  that is written starts with the new entry, and \<^verbatim>\<open>getRateHistory(1)\<close> right after
  the call returns exactly that entry. Its snapshot is the rate set that \<^verbatim>\<open>getBoppRates\<close>
  returned before the call, so whenever the call changes the rate set the snapshot is not
  the rate set after the call. Its id is one more than the greatest id in the history
  that was loaded, and 1 when that history is empty.
\<close>

theorem history_entry_is_pre_update_snapshot:
  "fst (getRateHistory t0 1 (updateBoppRates t0 now newRates userId userName s))
     = [\<lparr>hist_id = Max (insert 0 (hist_id ` set (fst (loadHistoryFromFile t0 s)))) + 1,
         changed_at = now, changed_by_id = userId, changed_by_name = userName,
         rates_snapshot = fst (getBoppRates s)\<rparr>]
   \<and> history_file (updateBoppRates t0 now newRates userId userName s)
     = File (take 50
         (\<lparr>hist_id = Max (insert 0 (hist_id ` set (fst (loadHistoryFromFile t0 s)))) + 1,
           changed_at = now, changed_by_id = userId, changed_by_name = userName,
           rates_snapshot = fst (getBoppRates s)\<rparr> # fst (loadHistoryFromFile t0 s)))
   \<and> (fst (getBoppRates (updateBoppRates t0 now newRates userId userName s)) \<noteq> fst (getBoppRates s) \<longrightarrow>
        map rates_snapshot (fst (getRateHistory t0 1 (updateBoppRates t0 now newRates userId userName s)))
          \<noteq> [fst (getBoppRates (updateBoppRates t0 now newRates userId userName s))])"
proof -
  have e: "new_entry t0 now userId userName s
        = \<lparr>hist_id = Max (insert 0 (hist_id ` set (fst (loadHistoryFromFile t0 s)))) + 1,
           changed_at = now, changed_by_id = userId, changed_by_name = userName,
           rates_snapshot = fst (getBoppRates s)\<rparr>"
    by (simp add: new_entry_def newHistoryId_Max getBoppRates_def)
  have a: "fst (getRateHistory t0 1 (updateBoppRates t0 now newRates userId userName s))
           = [new_entry t0 now userId userName s]"
    by (simp add: getRateHistory_fst slice_to_def history_after_update)
  have b: "history_file (updateBoppRates t0 now newRates userId userName s)
           = File (take 50 (new_entry t0 now userId userName s # fst (loadHistoryFromFile t0 s)))"
    by (rule update_history_file)
  have c: "rates_snapshot (new_entry t0 now userId userName s) = fst (getBoppRates s)"
    by (simp add: e)
  show ?thesis
    using a b c unfolding e by simp
qed

text \<open>
  The example of the specification: on storage without files, raising \<open>profit\<close> to 15
  changes the rate set, and the entry returned afterwards holds the rate set from before
  the call.
\<close>

theorem history_entry_is_pre_update_snapshot_witness:
  "fst (getBoppRates (updateBoppRates 0 1 [\<lparr>rate_id = 0, rate_key = ''profit'', rate_value = 15\<rparr>]
          ''admin'' ''Administrator'' fresh_storage)) \<noteq> fst (getBoppRates fresh_storage)
   \<and> map rates_snapshot (fst (getRateHistory 0 1
         (updateBoppRates 0 1 [\<lparr>rate_id = 0, rate_key = ''profit'', rate_value = 15\<rparr>]
            ''admin'' ''Administrator'' fresh_storage)))
       = [fst (getBoppRates fresh_storage)]
   \<and> map rates_snapshot (fst (getRateHistory 0 1
         (updateBoppRates 0 1 [\<lparr>rate_id = 0, rate_key = ''profit'', rate_value = 15\<rparr>]
            ''admin'' ''Administrator'' fresh_storage)))
       \<noteq> [fst (getBoppRates (updateBoppRates 0 1 [\<lparr>rate_id = 0, rate_key = ''profit'', rate_value = 15\<rparr>]
            ''admin'' ''Administrator'' fresh_storage))]"
proof -
  have changed: "fst (getBoppRates (updateBoppRates 0 1 [\<lparr>rate_id = 0, rate_key = ''profit'', rate_value = 15\<rparr>]
          ''admin'' ''Administrator'' fresh_storage)) \<noteq> fst (getBoppRates fresh_storage)"
    by code_simp
  note t = history_entry_is_pre_update_snapshot
    [of 0 1 "[\<lparr>rate_id = 0, rate_key = ''profit'', rate_value = 15\<rparr>]" "''admin''" "''Administrator''" fresh_storage]
  from t have snap: "map rates_snapshot (fst (getRateHistory 0 1
         (updateBoppRates 0 1 [\<lparr>rate_id = 0, rate_key = ''profit'', rate_value = 15\<rparr>]
            ''admin'' ''Administrator'' fresh_storage))) = [fst (getBoppRates fresh_storage)]"
    by simp
  from t changed have "map rates_snapshot (fst (getRateHistory 0 1
         (updateBoppRates 0 1 [\<lparr>rate_id = 0, rate_key = ''profit'', rate_value = 15\<rparr>]
            ''admin'' ''Administrator'' fresh_storage)))
       \<noteq> [fst (getBoppRates (updateBoppRates 0 1 [\<lparr>rate_id = 0, rate_key = ''profit'', rate_value = 15\<rparr>]
            ''admin'' ''Administrator'' fresh_storage))]"
    by simp
  with changed snap show ?thesis by simp
qed



text \<open>
  Claim C4 says that the history never exceeds 50 entries and that the entries dropped
  at the cap are the oldest. The bound holds after every call. What a call drops is the
  end of the list, and the default history lists its older entry first, so the end of
  the list is not always the oldest entry. On storage without files, with the module
  loaded at time 0: after 48 calls the history has 50 entries and ends with the entry
  of the first call and the two default entries, dated two days and one day before; the
  49th call drops the default entry of one day before and keeps the older one.
\<close>

theorem newer_default_entry_dropped_first:
  "map stamp (drop 47 (fst (loadHistoryFromFile 0
       (apply_updates 0 (take 48 forty_nine_updates) fresh_storage))))
     = [(3, 1), (1, - 172800000), (2, - 86400000)]
   \<and> map stamp (drop 47 (fst (loadHistoryFromFile 0
       (apply_updates 0 forty_nine_updates fresh_storage))))
     = [(4, 2), (3, 1), (1, - 172800000)]
   \<and> length (fst (loadHistoryFromFile 0 (apply_updates 0 forty_nine_updates fresh_storage))) = 50"
proof -
  have a: "drop 47 (fold stamps_step (take 48 forty_nine_updates) [(1, - 172800000), (2, - 86400000)])
      = [(3, 1), (1, - 172800000), (2, - 86400000)]"
    by code_simp
  have b: "drop 47 (fold stamps_step forty_nine_updates [(1, - 172800000), (2, - 86400000)])
      = [(4, 2), (3, 1), (1, - 172800000)]"
    by code_simp
  have c: "length (fold stamps_step forty_nine_updates [(1, - 172800000), (2, - 86400000)]) = 50"
    by code_simp
  let ?H48 = "fst (loadHistoryFromFile 0 (apply_updates 0 (take 48 forty_nine_updates) fresh_storage))"
  let ?H49 = "fst (loadHistoryFromFile 0 (apply_updates 0 forty_nine_updates fresh_storage))"
  have "map stamp (drop 47 ?H48) = drop 47 (map stamp ?H48)" by (simp only: drop_map)
  also have "\<dots> = [(3, 1), (1, - 172800000), (2, - 86400000)]"
    by (simp only: stamps_after_updates fresh_stamps a)
  finally have a': "map stamp (drop 47 ?H48) = [(3, 1), (1, - 172800000), (2, - 86400000)]" .
  have "map stamp (drop 47 ?H49) = drop 47 (map stamp ?H49)" by (simp only: drop_map)
  also have "\<dots> = [(4, 2), (3, 1), (1, - 172800000)]"
    by (simp only: stamps_after_updates fresh_stamps b)
  finally have b': "map stamp (drop 47 ?H49) = [(4, 2), (3, 1), (1, - 172800000)]" .
  have "length ?H49 = length (map stamp ?H49)" by (simp only: length_map)
  also have "\<dots> = 50" by (simp only: stamps_after_updates fresh_stamps c)
  finally have c': "length ?H49 = 50" .
  from a' b' c' show ?thesis by (intro conjI)
qed

text \<open>
  Claim C8 says that \<^verbatim>\<open>getRateHistory(limit)\<close> returns the newest \<open>limit\<close> entries and
  never changes the files, for every limit and storage state. On storage without files
  the call with limit 1 creates the history file, and it returns the default entry dated
  two days before although the history holds one dated one day before. On a history of
  50 entries the call with limit \<open>-1\<close> returns 49 entries.
\<close>

theorem getRateHistory_deviations:
  "history_file (snd (getRateHistory 0 1 fresh_storage)) \<noteq> history_file fresh_storage
   \<and> map stamp (fst (getRateHistory 0 1 fresh_storage)) = [(1, - 172800000)]
   \<and> map stamp (fst (loadHistoryFromFile 0 (snd (getRateHistory 0 1 fresh_storage))))
       = [(1, - 172800000), (2, - 86400000)]
   \<and> length (fst (getRateHistory 0 (- 1) full_history_storage)) = 49"
  by (simp add: getRateHistory_def loadHistoryFromFile_def fresh_storage_def full_history_storage_def
      initialMockRateHistory_def slice_to_def stamp_def)

text \<open>
  Claim C8, amended. When the history file exists, \<^verbatim>\<open>getRateHistory(limit)\<close> leaves all
  three files as they are; when it is missing, the call creates it with the default
  history and changes nothing else. When the file holds a list, a limit that is not
  negative returns the first \<open>limit\<close> entries of it and a negative limit returns all but
  the last \<open>-limit\<close> entries. The entries returned for a limit that is not negative are
  the newest ones (no entry left out is newer than one returned) when the list in the
  file is newest-first, and also, for a limit up to \<open>k\<close>, after \<open>k\<close> calls of
  \<^verbatim>\<open>updateBoppRates\<close> whose clock does not run backwards and is not behind any entry of
  the history loaded before them, as on every state reached from no files with the clock
  at or after the load of the module. The order of the two default entries among
  themselves is left out.
\<close>

theorem getRateHistory_frame:
  "(history_file s \<noteq> NoFile \<longrightarrow> snd (getRateHistory t0 limit s) = s)
   \<and> (history_file s = NoFile \<longrightarrow>
         snd (getRateHistory t0 limit s) = s\<lparr>history_file := File (initialMockRateHistory t0)\<rparr>)
   \<and> (\<forall>h. history_file s = File h \<longrightarrow>
         (0 \<le> limit \<longrightarrow> fst (getRateHistory t0 limit s) = take (nat limit) h) \<and>
         (limit < 0 \<longrightarrow> fst (getRateHistory t0 limit s) = take (length h - nat (- limit)) h) \<and>
         (0 \<le> limit \<and> newest_first h \<longrightarrow>
            (\<forall>e\<in>set (fst (getRateHistory t0 limit s)). \<forall>d\<in>set (drop (nat limit) h).
               changed_at d \<le> changed_at e)))
   \<and> (sorted (map fst calls) \<and>
        (\<forall>e\<in>set (fst (loadHistoryFromFile t0 s)). \<forall>c\<in>set calls. changed_at e \<le> fst c) \<and>
        0 \<le> limit \<and> limit \<le> int (length calls) \<longrightarrow>
          (\<forall>e\<in>set (fst (getRateHistory t0 limit (apply_updates t0 calls s))).
           \<forall>d\<in>set (drop (nat limit) (fst (loadHistoryFromFile t0 (apply_updates t0 calls s)))).
             changed_at d \<le> changed_at e))"
proof (intro conjI)
  show "history_file s \<noteq> NoFile \<longrightarrow> snd (getRateHistory t0 limit s) = s"
    by (cases "history_file s") (simp_all add: getRateHistory_snd loadHistoryFromFile_def)
  show "history_file s = NoFile \<longrightarrow>
         snd (getRateHistory t0 limit s) = s\<lparr>history_file := File (initialMockRateHistory t0)\<rparr>"
    by (simp add: getRateHistory_snd loadHistoryFromFile_def)
  show "\<forall>h. history_file s = File h \<longrightarrow>
         (0 \<le> limit \<longrightarrow> fst (getRateHistory t0 limit s) = take (nat limit) h) \<and>
         (limit < 0 \<longrightarrow> fst (getRateHistory t0 limit s) = take (length h - nat (- limit)) h) \<and>
         (0 \<le> limit \<and> newest_first h \<longrightarrow>
            (\<forall>e\<in>set (fst (getRateHistory t0 limit s)). \<forall>d\<in>set (drop (nat limit) h).
               changed_at d \<le> changed_at e))"
  proof (intro allI impI conjI)
    fix h assume f: "history_file s = File h"
    then have ld: "fst (loadHistoryFromFile t0 s) = h" by (simp add: loadHistoryFromFile_def)
    show "fst (getRateHistory t0 limit s) = take (nat limit) h" if "0 \<le> limit"
      using that by (simp add: getRateHistory_fst ld slice_to_def)
    show "fst (getRateHistory t0 limit s) = take (length h - nat (- limit)) h" if "limit < 0"
    proof -
      from that have "nat (int (length h) + limit) = length h - nat (- limit)" by linarith
      with that show ?thesis by (simp add: getRateHistory_fst ld slice_to_def)
    qed
    show "\<forall>e\<in>set (fst (getRateHistory t0 limit s)). \<forall>d\<in>set (drop (nat limit) h).
               changed_at d \<le> changed_at e" if "0 \<le> limit \<and> newest_first h"
    proof (intro ballI)
      fix e d
      assume "e \<in> set (fst (getRateHistory t0 limit s))" and d: "d \<in> set (drop (nat limit) h)"
      with that have e: "e \<in> set (take (nat limit) h)"
        by (simp add: getRateHistory_fst ld slice_to_def)
      from that have "sorted_wrt (\<lambda>a b. changed_at b \<le> changed_at a) h"
        by (simp add: newest_first_def)
      then show "changed_at d \<le> changed_at e" using e d by (rule sorted_take_drop)
    qed
  qed
  show "sorted (map fst calls) \<and>
        (\<forall>e\<in>set (fst (loadHistoryFromFile t0 s)). \<forall>c\<in>set calls. changed_at e \<le> fst c) \<and>
        0 \<le> limit \<and> limit \<le> int (length calls) \<longrightarrow>
          (\<forall>e\<in>set (fst (getRateHistory t0 limit (apply_updates t0 calls s))).
           \<forall>d\<in>set (drop (nat limit) (fst (loadHistoryFromFile t0 (apply_updates t0 calls s)))).
             changed_at d \<le> changed_at e)"
  proof (intro impI ballI)
    fix e d
    assume h: "sorted (map fst calls) \<and>
        (\<forall>e\<in>set (fst (loadHistoryFromFile t0 s)). \<forall>c\<in>set calls. changed_at e \<le> fst c) \<and>
        0 \<le> limit \<and> limit \<le> int (length calls)"
      and "e \<in> set (fst (getRateHistory t0 limit (apply_updates t0 calls s)))"
      and d: "d \<in> set (drop (nat limit) (fst (loadHistoryFromFile t0 (apply_updates t0 calls s))))"
    then have e: "e \<in> set (take (nat limit) (fst (loadHistoryFromFile t0 (apply_updates t0 calls s))))"
      by (simp add: getRateHistory_fst slice_to_def)
    from h have n: "nat limit \<le> length calls" by linarith
    from h have s: "sorted (map fst calls)"
      and b: "\<forall>e\<in>set (fst (loadHistoryFromFile t0 s)). \<forall>c\<in>set calls. changed_at e \<le> fst c"
      by blast+
    show "changed_at d \<le> changed_at e"
      by (rule newest_after_updates [OF s b n e d])
  qed
qed

text \<open>
  Reads of a full history file and of storage without files, and a read with limit 2
  after two calls on storage without files.
\<close>

theorem getRateHistory_frame_witness:
  "history_file full_history_storage \<noteq> NoFile
   \<and> snd (getRateHistory 0 5 full_history_storage) = full_history_storage
   \<and> history_file fresh_storage = NoFile
   \<and> snd (getRateHistory 0 5 fresh_storage) = fresh_storage\<lparr>history_file := File (initialMockRateHistory 0)\<rparr>
   \<and> history_file full_history_storage
       = File (replicate 50 \<lparr>hist_id = 1, changed_at = 0, changed_by_id = ''admin'',
                changed_by_name = ''Administrator'', rates_snapshot = []\<rparr>)
   \<and> fst (getRateHistory 0 5 full_history_storage)
       = take 5 (replicate 50 \<lparr>hist_id = 1, changed_at = 0, changed_by_id = ''admin'',
                changed_by_name = ''Administrator'', rates_snapshot = []\<rparr>)
   \<and> fst (getRateHistory 0 (- 1) full_history_storage)
       = take 49 (replicate 50 \<lparr>hist_id = 1, changed_at = 0, changed_by_id = ''admin'',
                changed_by_name = ''Administrator'', rates_snapshot = []\<rparr>)
   \<and> newest_first (replicate 50 \<lparr>hist_id = 1, changed_at = 0, changed_by_id = ''admin'',
                changed_by_name = ''Administrator'', rates_snapshot = []\<rparr>)
   \<and> changed_at (last (replicate 50 \<lparr>hist_id = 1, changed_at = 0, changed_by_id = ''admin'',
                changed_by_name = ''Administrator'', rates_snapshot = []\<rparr>))
       \<le> changed_at (hd (fst (getRateHistory 0 5 full_history_storage)))
   \<and> sorted (map fst [(1, [], ''admin'', ''Administrator''), (2::int, [] :: BoppRate list, ''admin'', ''Administrator'')])
   \<and> list_all (\<lambda>e. list_all (\<lambda>c. changed_at e \<le> fst c)
          [(1, [], ''admin'', ''Administrator''), (2::int, [] :: BoppRate list, ''admin'', ''Administrator'')])
        (fst (loadHistoryFromFile 0 fresh_storage))
   \<and> hd (fst (getRateHistory 0 2 (apply_updates 0
          [(1, [], ''admin'', ''Administrator''), (2, [], ''admin'', ''Administrator'')] fresh_storage)))
       \<in> set (fst (getRateHistory 0 2 (apply_updates 0
          [(1, [], ''admin'', ''Administrator''), (2, [], ''admin'', ''Administrator'')] fresh_storage)))
   \<and> last (fst (loadHistoryFromFile 0 (apply_updates 0
          [(1, [], ''admin'', ''Administrator''), (2, [], ''admin'', ''Administrator'')] fresh_storage)))
       \<in> set (drop 2 (fst (loadHistoryFromFile 0 (apply_updates 0
          [(1, [], ''admin'', ''Administrator''), (2, [], ''admin'', ''Administrator'')] fresh_storage))))
   \<and> changed_at (last (fst (loadHistoryFromFile 0 (apply_updates 0
          [(1, [], ''admin'', ''Administrator''), (2, [], ''admin'', ''Administrator'')] fresh_storage))))
       \<le> changed_at (hd (fst (getRateHistory 0 2 (apply_updates 0
          [(1, [], ''admin'', ''Administrator''), (2, [], ''admin'', ''Administrator'')] fresh_storage))))"
proof -
  let ?e = "\<lparr>hist_id = 1, changed_at = 0, changed_by_id = ''admin'',
                changed_by_name = ''Administrator'', rates_snapshot = []\<rparr>"
  let ?h = "replicate 50 ?e"
  let ?calls = "[(1, [], ''admin'', ''Administrator''), (2::int, [] :: BoppRate list, ''admin'', ''Administrator'')]"
  let ?s = "apply_updates 0 ?calls fresh_storage"
  have ex: "history_file full_history_storage \<noteq> NoFile"
    by (simp add: full_history_storage_def)
  have f: "history_file full_history_storage = File ?h"
    by (simp add: full_history_storage_def)
  have nf: "newest_first ?h" by code_simp
  have no: "history_file fresh_storage = NoFile"
    by (simp add: fresh_storage_def)
  note t = getRateHistory_frame [where s = full_history_storage and ?t0.0 = 0 and limit = 5]
  from t ex have a: "snd (getRateHistory 0 5 full_history_storage) = full_history_storage" by simp
  from t f have b: "fst (getRateHistory 0 5 full_history_storage) = take 5 ?h" by simp
  from t f nf have c: "\<forall>e\<in>set (fst (getRateHistory 0 5 full_history_storage)).
       \<forall>d\<in>set (drop 5 ?h). changed_at d \<le> changed_at e" by simp
  have "hd (fst (getRateHistory 0 5 full_history_storage)) \<in> set (fst (getRateHistory 0 5 full_history_storage))"
    by (simp add: b)
  moreover have "last ?h \<in> set (drop 5 ?h)" by simp
  ultimately have c': "changed_at (last ?h) \<le> changed_at (hd (fst (getRateHistory 0 5 full_history_storage)))"
    using c by blast
  from getRateHistory_frame [where s = full_history_storage and ?t0.0 = 0 and limit = "- 1"] f
  have n: "fst (getRateHistory 0 (- 1) full_history_storage) = take 49 ?h" by simp
  from getRateHistory_frame [where s = fresh_storage and ?t0.0 = 0 and limit = 5] no
  have d: "snd (getRateHistory 0 5 fresh_storage) = fresh_storage\<lparr>history_file := File (initialMockRateHistory 0)\<rparr>"
    by simp
  have so: "sorted (map fst ?calls)" by simp
  have bd: "list_all (\<lambda>e. list_all (\<lambda>c. changed_at e \<le> fst c) ?calls) (fst (loadHistoryFromFile 0 fresh_storage))"
    by code_simp
  then have bd': "\<forall>e\<in>set (fst (loadHistoryFromFile 0 fresh_storage)). \<forall>c\<in>set ?calls. changed_at e \<le> fst c"
    by (simp only: list_all_iff)
  have lim: "(0::int) \<le> 2 \<and> 2 \<le> int (length ?calls)" by simp
  have m1: "hd (fst (getRateHistory 0 2 ?s)) \<in> set (fst (getRateHistory 0 2 ?s))" by code_simp
  have m2: "last (fst (loadHistoryFromFile 0 ?s)) \<in> set (drop 2 (fst (loadHistoryFromFile 0 ?s)))"
    by code_simp
  from getRateHistory_frame [where s = fresh_storage and ?t0.0 = 0 and limit = 2 and calls = ?calls] so bd' lim
  have "\<forall>e\<in>set (fst (getRateHistory 0 2 ?s)). \<forall>d\<in>set (drop (nat 2) (fst (loadHistoryFromFile 0 ?s))).
          changed_at d \<le> changed_at e"
    by blast
  then have "\<forall>e\<in>set (fst (getRateHistory 0 2 ?s)). \<forall>d\<in>set (drop 2 (fst (loadHistoryFromFile 0 ?s))).
          changed_at d \<le> changed_at e"
    by simp
  with m1 m2 have g: "changed_at (last (fst (loadHistoryFromFile 0 ?s)))
      \<le> changed_at (hd (fst (getRateHistory 0 2 ?s)))"
    by blast
  from ex a no d f b n nf c' so bd m1 m2 g show ?thesis by blast
qed

text \<open>
  Claim C3 says that the ids stay unique after any sequence of calls. A rate of the form
  with a new key keeps the id the form gives it (\<^verbatim>\<open>formRate.id || ++maxCurrentId\<close>), and
  nothing compares that id with the ids in the rate set: on storage without files, a new
  key sent with id 1 ends with the id of \<open>adhesive_less_rate\<close>.
\<close>

theorem supplied_id_can_collide:
  "\<not> distinct (map rate_id (fst (getBoppRates
       (updateBoppRates 0 0 [\<lparr>rate_id = 1, rate_key = ''new_rate'', rate_value = 5\<rparr>]
          ''admin'' ''Administrator'' fresh_storage))))"
  by code_simp

text \<open>
  Claim C3, amended. From a storage state whose rate set has unique ids, as the state
  without files and every state reached from it in this way have, after any sequence of
  calls of \<^verbatim>\<open>updateBoppRates\<close> in which every rate with a new key comes without id, the
  rate set that \<^verbatim>\<open>getBoppRates\<close> returns has unique ids; and in one more such call every
  rate with a new key gets an id that no rate of the set before the call has.
\<close>

theorem rate_ids_stay_unique:
  assumes "distinct (map rate_id (fst (getBoppRates s)))" and "updates_ok t0 calls s"
  shows "distinct (map rate_id (fst (getBoppRates (apply_updates t0 calls s))))
       \<and> (\<forall>now newRates userId userName.
            generated_only (fst (getBoppRates (apply_updates t0 calls s))) newRates \<longrightarrow>
            (\<forall>c\<in>set (fst (getBoppRates
                 (updateBoppRates t0 now newRates userId userName (apply_updates t0 calls s)))).
               rate_key c \<notin> rate_key ` set (fst (getBoppRates (apply_updates t0 calls s))) \<longrightarrow>
               rate_id c \<notin> rate_id ` set (fst (getBoppRates (apply_updates t0 calls s)))))"
proof (intro conjI allI impI ballI)
  show "distinct (map rate_id (fst (getBoppRates (apply_updates t0 calls s))))"
    by (rule apply_updates_ids [OF assms])
next
  fix now newRates userId userName c
  let ?s = "apply_updates t0 calls s"
  assume "generated_only (fst (getBoppRates ?s)) newRates"
    and "c \<in> set (fst (getBoppRates (updateBoppRates t0 now newRates userId userName ?s)))"
    and "rate_key c \<notin> rate_key ` set (fst (getBoppRates ?s))"
  then have "\<forall>c0\<in>set (fst (getBoppRates ?s)). rate_id c0 < rate_id c"
    by (rule generated_ids_fresh)
  then show "rate_id c \<notin> rate_id ` set (fst (getBoppRates ?s))" by auto
qed

text \<open>
  Two calls on storage without files, the second with two rates, and a third call that
  adds a key: it gets id 19.
\<close>

theorem rate_ids_stay_unique_witness:
  "distinct (map rate_id (fst (getBoppRates fresh_storage)))
   \<and> updates_ok 0
        [(1, [\<lparr>rate_id = 0, rate_key = ''new_rate'', rate_value = 5\<rparr>], ''admin'', ''Administrator''),
         (2, [\<lparr>rate_id = 0, rate_key = ''other_rate'', rate_value = 7\<rparr>,
              \<lparr>rate_id = 13, rate_key = ''profit'', rate_value = 11\<rparr>], ''admin'', ''Administrator'')]
        fresh_storage
   \<and> distinct (map rate_id (fst (getBoppRates (apply_updates 0
        [(1, [\<lparr>rate_id = 0, rate_key = ''new_rate'', rate_value = 5\<rparr>], ''admin'', ''Administrator''),
         (2, [\<lparr>rate_id = 0, rate_key = ''other_rate'', rate_value = 7\<rparr>,
              \<lparr>rate_id = 13, rate_key = ''profit'', rate_value = 11\<rparr>], ''admin'', ''Administrator'')]
        fresh_storage))))
   \<and> generated_only (fst (getBoppRates (apply_updates 0
        [(1, [\<lparr>rate_id = 0, rate_key = ''new_rate'', rate_value = 5\<rparr>], ''admin'', ''Administrator''),
         (2, [\<lparr>rate_id = 0, rate_key = ''other_rate'', rate_value = 7\<rparr>,
              \<lparr>rate_id = 13, rate_key = ''profit'', rate_value = 11\<rparr>], ''admin'', ''Administrator'')]
        fresh_storage)))
        [\<lparr>rate_id = 0, rate_key = ''third_rate'', rate_value = 1\<rparr>]
   \<and> \<lparr>rate_id = 19, rate_key = ''third_rate'', rate_value = 1\<rparr>
        \<in> set (fst (getBoppRates (updateBoppRates 0 3
             [\<lparr>rate_id = 0, rate_key = ''third_rate'', rate_value = 1\<rparr>] ''admin'' ''Administrator''
             (apply_updates 0
        [(1, [\<lparr>rate_id = 0, rate_key = ''new_rate'', rate_value = 5\<rparr>], ''admin'', ''Administrator''),
         (2, [\<lparr>rate_id = 0, rate_key = ''other_rate'', rate_value = 7\<rparr>,
              \<lparr>rate_id = 13, rate_key = ''profit'', rate_value = 11\<rparr>], ''admin'', ''Administrator'')]
        fresh_storage))))
   \<and> ''third_rate'' \<notin> rate_key ` set (fst (getBoppRates (apply_updates 0
        [(1, [\<lparr>rate_id = 0, rate_key = ''new_rate'', rate_value = 5\<rparr>], ''admin'', ''Administrator''),
         (2, [\<lparr>rate_id = 0, rate_key = ''other_rate'', rate_value = 7\<rparr>,
              \<lparr>rate_id = 13, rate_key = ''profit'', rate_value = 11\<rparr>], ''admin'', ''Administrator'')]
        fresh_storage)))
   \<and> 19 \<notin> rate_id ` set (fst (getBoppRates (apply_updates 0
        [(1, [\<lparr>rate_id = 0, rate_key = ''new_rate'', rate_value = 5\<rparr>], ''admin'', ''Administrator''),
         (2, [\<lparr>rate_id = 0, rate_key = ''other_rate'', rate_value = 7\<rparr>,
              \<lparr>rate_id = 13, rate_key = ''profit'', rate_value = 11\<rparr>], ''admin'', ''Administrator'')]
        fresh_storage)))"
proof -
  let ?calls = "[(1, [\<lparr>rate_id = 0, rate_key = ''new_rate'', rate_value = 5\<rparr>], ''admin'', ''Administrator''),
         (2, [\<lparr>rate_id = 0, rate_key = ''other_rate'', rate_value = 7\<rparr>,
              \<lparr>rate_id = 13, rate_key = ''profit'', rate_value = 11\<rparr>], ''admin'', ''Administrator'')]"
  let ?s = "apply_updates 0 ?calls fresh_storage"
  let ?third = "[\<lparr>rate_id = 0, rate_key = ''third_rate'', rate_value = 1\<rparr>]"
  let ?c = "\<lparr>rate_id = 19, rate_key = ''third_rate'', rate_value = 1\<rparr>"
  have h1: "distinct (map rate_id (fst (getBoppRates fresh_storage)))" by code_simp
  have h2: "updates_ok 0 ?calls fresh_storage" by code_simp
  have g: "generated_only (fst (getBoppRates ?s)) ?third" by code_simp
  have c: "?c \<in> set (fst (getBoppRates (updateBoppRates 0 3 ?third ''admin'' ''Administrator'' ?s)))"
    by code_simp
  have k: "rate_key ?c \<notin> rate_key ` set (fst (getBoppRates ?s))" by code_simp
  note t = rate_ids_stay_unique [OF h1 h2]
  from t have d: "distinct (map rate_id (fst (getBoppRates ?s)))" by (rule conjunct1)
  from t have "\<forall>now newRates userId userName.
            generated_only (fst (getBoppRates ?s)) newRates \<longrightarrow>
            (\<forall>c\<in>set (fst (getBoppRates (updateBoppRates 0 now newRates userId userName ?s))).
               rate_key c \<notin> rate_key ` set (fst (getBoppRates ?s)) \<longrightarrow>
               rate_id c \<notin> rate_id ` set (fst (getBoppRates ?s)))"
    by (rule conjunct2)
  with g have "\<forall>c\<in>set (fst (getBoppRates (updateBoppRates 0 3 ?third ''admin'' ''Administrator'' ?s))).
               rate_key c \<notin> rate_key ` set (fst (getBoppRates ?s)) \<longrightarrow>
               rate_id c \<notin> rate_id ` set (fst (getBoppRates ?s))"
    by blast
  with c k have "rate_id ?c \<notin> rate_id ` set (fst (getBoppRates ?s))" by blast
  then have f: "19 \<notin> rate_id ` set (fst (getBoppRates ?s))" by simp
  from k have k': "''third_rate'' \<notin> rate_key ` set (fst (getBoppRates ?s))" by simp
  from h1 h2 d g c k' f show ?thesis by blast
qed

text \<open>
  Claim C5. Let a call of \<^verbatim>\<open>updateBoppRates\<close> get the rates \<open>newRates\<close>, and compare what
  \<^verbatim>\<open>getBoppRates\<close> returns before and after it. For every rate of \<open>newRates\<close>: when its
  key is the key of a rate of the set before, the set after has exactly one rate with
  that key, the old one with only its value replaced (by the value of the last rate of
  \<open>newRates\<close> with that key); when its key is new, the set after has exactly one rate with
  that key, whose id is the id that the first rate of \<open>newRates\<close> with that key gives, or,
  when that rate gives none, an id greater than every id of the set before; and after
  any further call, whatever its rates, the set still has exactly one rate with that
  key. A rate of the set before whose key is not in \<open>newRates\<close> stays as it is.
\<close>

theorem updateBoppRates_merges_by_key:
  "(\<forall>f\<in>set newRates.
     (\<forall>c\<in>set (fst (getBoppRates s)). rate_key c = rate_key f \<longrightarrow>
        filter (\<lambda>x. rate_key x = rate_key f)
          (fst (getBoppRates (updateBoppRates t0 now newRates userId userName s)))
        = [c\<lparr>rate_value := rate_value (last (filter (\<lambda>x. rate_key x = rate_key f) newRates))\<rparr>])
   \<and> (rate_key f \<notin> rate_key ` set (fst (getBoppRates s)) \<longrightarrow>
        (\<exists>c. filter (\<lambda>x. rate_key x = rate_key f)
               (fst (getBoppRates (updateBoppRates t0 now newRates userId userName s))) = [c]
           \<and> rate_key c = rate_key f
           \<and> rate_value c = rate_value (last (filter (\<lambda>x. rate_key x = rate_key f) newRates))
           \<and> (if rate_id (hd (filter (\<lambda>x. rate_key x = rate_key f) newRates)) \<noteq> 0
               then rate_id c = rate_id (hd (filter (\<lambda>x. rate_key x = rate_key f) newRates))
               else \<forall>c0\<in>set (fst (getBoppRates s)). rate_id c0 < rate_id c)))
   \<and> length (filter (\<lambda>x. rate_key x = rate_key f)
        (fst (getBoppRates (updateBoppRates t0 now' newRates' userId' userName'
           (updateBoppRates t0 now newRates userId userName s))))) = 1)
   \<and> (\<forall>c\<in>set (fst (getBoppRates s)). rate_key c \<notin> rate_key ` set newRates \<longrightarrow>
        filter (\<lambda>x. rate_key x = rate_key c)
          (fst (getBoppRates (updateBoppRates t0 now newRates userId userName s))) = [c])"
proof (intro ballI conjI allI impI)
  fix f c
  let ?cs = "fst (getBoppRates s)"
  assume f: "f \<in> set newRates" and c: "c \<in> set ?cs" and k: "rate_key c = rate_key f"
  have "filter (\<lambda>x. rate_key x = rate_key c) (updatedRates ?cs newRates)
        = [c\<lparr>rate_value := last_value (rate_key c) newRates (rate_value c)\<rparr>]"
    by (rule updatedRates_existing [OF load_distinct_keys c])
  then show "filter (\<lambda>x. rate_key x = rate_key f)
          (fst (getBoppRates (updateBoppRates t0 now newRates userId userName s)))
        = [c\<lparr>rate_value := rate_value (last (filter (\<lambda>x. rate_key x = rate_key f) newRates))\<rparr>]"
    by (simp only: rates_after_update k last_value_present [OF f])
next
  fix f
  let ?cs = "fst (getBoppRates s)"
  assume f: "f \<in> set newRates" and new: "rate_key f \<notin> rate_key ` set ?cs"
  from f have "f \<in> set (filter (\<lambda>x. rate_key x = rate_key f) newRates)" by simp
  then obtain f0 tl0 where flt: "filter (\<lambda>x. rate_key x = rate_key f) newRates = f0 # tl0"
    by (cases "filter (\<lambda>x. rate_key x = rate_key f) newRates") auto
  from updatedRates_new [OF load_distinct_keys new flt]
  show "\<exists>c. filter (\<lambda>x. rate_key x = rate_key f)
               (fst (getBoppRates (updateBoppRates t0 now newRates userId userName s))) = [c]
           \<and> rate_key c = rate_key f
           \<and> rate_value c = rate_value (last (filter (\<lambda>x. rate_key x = rate_key f) newRates))
           \<and> (if rate_id (hd (filter (\<lambda>x. rate_key x = rate_key f) newRates)) \<noteq> 0
               then rate_id c = rate_id (hd (filter (\<lambda>x. rate_key x = rate_key f) newRates))
               else \<forall>c0\<in>set (fst (getBoppRates s)). rate_id c0 < rate_id c)"
    by (simp only: rates_after_update flt list.sel)
next
  fix f
  let ?s' = "updateBoppRates t0 now newRates userId userName s"
  let ?cs' = "fst (getBoppRates ?s')"
  assume f: "f \<in> set newRates"
  have "rate_key ` set ?cs' = rate_key ` set (fst (getBoppRates s)) \<union> rate_key ` set newRates"
    by (simp only: rates_after_update updatedRates_keys [OF load_distinct_keys])
  with f have "rate_key f \<in> rate_key ` set ?cs'" by blast
  then obtain c where c: "c \<in> set ?cs'" "rate_key c = rate_key f" by auto
  have "filter (\<lambda>x. rate_key x = rate_key c) (updatedRates ?cs' newRates')
        = [c\<lparr>rate_value := last_value (rate_key c) newRates' (rate_value c)\<rparr>]"
    by (rule updatedRates_existing [OF load_distinct_keys c(1)])
  then show "length (filter (\<lambda>x. rate_key x = rate_key f)
        (fst (getBoppRates (updateBoppRates t0 now' newRates' userId' userName' ?s')))) = 1"
    by (simp only: rates_after_update [of t0 now' newRates' userId' userName' ?s'] c(2)) simp
next
  fix c
  let ?cs = "fst (getBoppRates s)"
  assume c: "c \<in> set ?cs" and k: "rate_key c \<notin> rate_key ` set newRates"
  have "filter (\<lambda>x. rate_key x = rate_key c) (updatedRates ?cs newRates)
        = [c\<lparr>rate_value := last_value (rate_key c) newRates (rate_value c)\<rparr>]"
    by (rule updatedRates_existing [OF load_distinct_keys c])
  then show "filter (\<lambda>x. rate_key x = rate_key c)
          (fst (getBoppRates (updateBoppRates t0 now newRates userId userName s))) = [c]"
    by (simp only: rates_after_update last_value_absent [OF k]) simp
qed

text \<open>
  On storage without files: a call that changes \<open>profit\<close> and adds \<open>new_rate\<close>, then a
  call that sends \<open>new_rate\<close> again.
\<close>

theorem updateBoppRates_merges_by_key_witness:
  "\<lparr>rate_id = 13, rate_key = ''profit'', rate_value = 10\<rparr> \<in> set (fst (getBoppRates fresh_storage))
   \<and> filter (\<lambda>x. rate_key x = ''profit'')
        (fst (getBoppRates (updateBoppRates 0 1
           [\<lparr>rate_id = 0, rate_key = ''profit'', rate_value = 15\<rparr>,
            \<lparr>rate_id = 0, rate_key = ''new_rate'', rate_value = 5\<rparr>] ''admin'' ''Administrator'' fresh_storage)))
      = [\<lparr>rate_id = 13, rate_key = ''profit'', rate_value = 15\<rparr>]
   \<and> ''new_rate'' \<notin> rate_key ` set (fst (getBoppRates fresh_storage))
   \<and> (\<exists>c. filter (\<lambda>x. rate_key x = ''new_rate'')
        (fst (getBoppRates (updateBoppRates 0 1
           [\<lparr>rate_id = 0, rate_key = ''profit'', rate_value = 15\<rparr>,
            \<lparr>rate_id = 0, rate_key = ''new_rate'', rate_value = 5\<rparr>] ''admin'' ''Administrator'' fresh_storage)))
        = [c] \<and> rate_key c = ''new_rate'' \<and> rate_value c = 5
        \<and> (\<forall>c0\<in>set (fst (getBoppRates fresh_storage)). rate_id c0 < rate_id c))
   \<and> length (filter (\<lambda>x. rate_key x = ''new_rate'')
        (fst (getBoppRates (updateBoppRates 0 2
           [\<lparr>rate_id = 0, rate_key = ''new_rate'', rate_value = 6\<rparr>] ''admin'' ''Administrator''
           (updateBoppRates 0 1
           [\<lparr>rate_id = 0, rate_key = ''profit'', rate_value = 15\<rparr>,
            \<lparr>rate_id = 0, rate_key = ''new_rate'', rate_value = 5\<rparr>] ''admin'' ''Administrator'' fresh_storage))))) = 1
   \<and> \<lparr>rate_id = 11, rate_key = ''natural'', rate_value = 0\<rparr> \<in> set (fst (getBoppRates fresh_storage))
   \<and> ''natural'' \<notin> rate_key ` set [\<lparr>rate_id = 0, rate_key = ''profit'', rate_value = 15\<rparr>,
            \<lparr>rate_id = 0, rate_key = ''new_rate'', rate_value = 5\<rparr>]
   \<and> filter (\<lambda>x. rate_key x = ''natural'')
        (fst (getBoppRates (updateBoppRates 0 1
           [\<lparr>rate_id = 0, rate_key = ''profit'', rate_value = 15\<rparr>,
            \<lparr>rate_id = 0, rate_key = ''new_rate'', rate_value = 5\<rparr>] ''admin'' ''Administrator'' fresh_storage)))
      = [\<lparr>rate_id = 11, rate_key = ''natural'', rate_value = 0\<rparr>]"
proof -
  let ?u = "\<lparr>rate_id = 11, rate_key = ''natural'', rate_value = 0\<rparr>"
  have u: "?u \<in> set (fst (getBoppRates fresh_storage))" by code_simp
  let ?p = "\<lparr>rate_id = 0, rate_key = ''profit'', rate_value = 15\<rparr>"
  let ?n = "\<lparr>rate_id = 0, rate_key = ''new_rate'', rate_value = 5\<rparr>"
  let ?again = "[\<lparr>rate_id = 0, rate_key = ''new_rate'', rate_value = 6\<rparr>]"
  let ?c = "\<lparr>rate_id = 13, rate_key = ''profit'', rate_value = 10\<rparr>"
  have c: "?c \<in> set (fst (getBoppRates fresh_storage))" by code_simp
  have new: "''new_rate'' \<notin> rate_key ` set (fst (getBoppRates fresh_storage))" by code_simp
  note t = updateBoppRates_merges_by_key
    [of "[?p, ?n]" fresh_storage 0 1 "''admin''" "''Administrator''" 2 ?again "''admin''" "''Administrator''"]
  have uk: "''natural'' \<notin> rate_key ` set [?p, ?n]" by simp
  from t have "\<forall>c\<in>set (fst (getBoppRates fresh_storage)). rate_key c \<notin> rate_key ` set [?p, ?n] \<longrightarrow>
        filter (\<lambda>x. rate_key x = rate_key c)
          (fst (getBoppRates (updateBoppRates 0 1 [?p, ?n] ''admin'' ''Administrator'' fresh_storage))) = [c]"
    by (rule conjunct2)
  from this u have "rate_key ?u \<notin> rate_key ` set [?p, ?n] \<longrightarrow>
        filter (\<lambda>x. rate_key x = rate_key ?u)
          (fst (getBoppRates (updateBoppRates 0 1 [?p, ?n] ''admin'' ''Administrator'' fresh_storage))) = [?u]"
    by (rule bspec)
  then have un: "filter (\<lambda>x. rate_key x = ''natural'')
          (fst (getBoppRates (updateBoppRates 0 1 [?p, ?n] ''admin'' ''Administrator'' fresh_storage))) = [?u]"
    by simp
  have "?p \<in> set [?p, ?n]" by simp
  with t have tp: "\<forall>c\<in>set (fst (getBoppRates fresh_storage)). rate_key c = rate_key ?p \<longrightarrow>
        filter (\<lambda>x. rate_key x = rate_key ?p)
          (fst (getBoppRates (updateBoppRates 0 1 [?p, ?n] ''admin'' ''Administrator'' fresh_storage)))
        = [c\<lparr>rate_value := rate_value (last (filter (\<lambda>x. rate_key x = rate_key ?p) [?p, ?n]))\<rparr>]"
    by blast
  from tp c have "rate_key ?c = rate_key ?p \<longrightarrow>
        filter (\<lambda>x. rate_key x = rate_key ?p)
          (fst (getBoppRates (updateBoppRates 0 1 [?p, ?n] ''admin'' ''Administrator'' fresh_storage)))
        = [?c\<lparr>rate_value := rate_value (last (filter (\<lambda>x. rate_key x = rate_key ?p) [?p, ?n]))\<rparr>]"
    by (rule bspec)
  then have a: "filter (\<lambda>x. rate_key x = ''profit'')
          (fst (getBoppRates (updateBoppRates 0 1 [?p, ?n] ''admin'' ''Administrator'' fresh_storage)))
        = [\<lparr>rate_id = 13, rate_key = ''profit'', rate_value = 15\<rparr>]"
    by simp
  have "?n \<in> set [?p, ?n]" by simp
  with t have tn: "(rate_key ?n \<notin> rate_key ` set (fst (getBoppRates fresh_storage)) \<longrightarrow>
        (\<exists>c. filter (\<lambda>x. rate_key x = rate_key ?n)
               (fst (getBoppRates (updateBoppRates 0 1 [?p, ?n] ''admin'' ''Administrator'' fresh_storage))) = [c]
           \<and> rate_key c = rate_key ?n
           \<and> rate_value c = rate_value (last (filter (\<lambda>x. rate_key x = rate_key ?n) [?p, ?n]))
           \<and> (if rate_id (hd (filter (\<lambda>x. rate_key x = rate_key ?n) [?p, ?n])) \<noteq> 0
               then rate_id c = rate_id (hd (filter (\<lambda>x. rate_key x = rate_key ?n) [?p, ?n]))
               else \<forall>c0\<in>set (fst (getBoppRates fresh_storage)). rate_id c0 < rate_id c)))
       \<and> length (filter (\<lambda>x. rate_key x = rate_key ?n)
        (fst (getBoppRates (updateBoppRates 0 2 ?again ''admin'' ''Administrator''
           (updateBoppRates 0 1 [?p, ?n] ''admin'' ''Administrator'' fresh_storage))))) = 1"
    by blast
  from tn new have b: "\<exists>c. filter (\<lambda>x. rate_key x = ''new_rate'')
               (fst (getBoppRates (updateBoppRates 0 1 [?p, ?n] ''admin'' ''Administrator'' fresh_storage))) = [c]
           \<and> rate_key c = ''new_rate'' \<and> rate_value c = 5
           \<and> (\<forall>c0\<in>set (fst (getBoppRates fresh_storage)). rate_id c0 < rate_id c)"
    by simp
  from tn have d: "length (filter (\<lambda>x. rate_key x = ''new_rate'')
        (fst (getBoppRates (updateBoppRates 0 2 ?again ''admin'' ''Administrator''
           (updateBoppRates 0 1 [?p, ?n] ''admin'' ''Administrator'' fresh_storage))))) = 1"
    by simp
  from c a new b d u uk un show ?thesis by blast
qed

section \<open>Properties of the user store\<close>

text \<open>
  Claim C1. Let the user ids of the store be distinct. \<^verbatim>\<open>verifyOtp\<close> succeeds exactly
  when the store has a user with the given id and role employee who has a stored code,
  that is one that is present and not the empty string, as the test \<^verbatim>\<open>!user.otp\<close>
  asks, and a creation time, the time since then is at most 300000 ms, and the
  submitted code equals the stored one. In particular, for a user with a stored code
  and a creation time: the right code succeeds 299999 ms and 300000 ms after the
  creation time, and at 300001 ms every code, right or wrong, gets the response that the
  code has expired.
\<close>

theorem verifyOtp_success_iff:
  assumes "distinct (map user_id (fst (loadUsersFromFile s)))"
  shows "(login_success (fst (verifyOtp now userId code s)) \<longleftrightarrow>
           (\<exists>user\<in>set (fst (loadUsersFromFile s)). \<exists>created.
              user_id user = userId \<and> role user = Employee \<and>
              otp user = Some code \<and> code \<noteq> [] \<and> otp_created_at user = Some created \<and>
              now - created \<le> 300000))
       \<and> (\<forall>user\<in>set (fst (loadUsersFromFile s)). \<forall>created stored.
              user_id user = userId \<and> role user = Employee \<and>
              otp user = Some stored \<and> stored \<noteq> [] \<and> otp_created_at user = Some created \<longrightarrow>
              (now - created = 299999 \<and> code = stored \<longrightarrow> login_success (fst (verifyOtp now userId code s))) \<and>
              (now - created = 300000 \<and> code = stored \<longrightarrow> login_success (fst (verifyOtp now userId code s))) \<and>
              (now - created = 300001 \<longrightarrow>
                 fst (verifyOtp now userId code s) = LoginError ''OTP has expired. Please generate a new one.''))"
proof -
  obtain users s' where ld: "loadUsersFromFile s = (users, s')" by (cases "loadUsersFromFile s")
  with assms have d: "distinct (map user_id users)" by simp
  let ?P = "\<lambda>u. user_id u = userId \<and> role u = Employee"
  show ?thesis
  proof (cases "find ?P users")
    case None
    then have "\<forall>u\<in>set users. user_id u = userId \<longrightarrow> role u \<noteq> Employee"
      by (simp add: find_None_id)
    with None ld show ?thesis by (auto simp: verifyOtp_def)
  next
    case (Some user)
    then have u: "user \<in> set users" "user_id user = userId" "role user = Employee"
      using find_distinct_id [OF d, of userId "\<lambda>u. role u = Employee" user] by auto
    have uniq: "v = user" if "v \<in> set users" "user_id v = userId" "role v = Employee" for v
    proof -
      from that have "find ?P users = Some v"
        by (simp add: find_distinct_id [OF d])
      with Some show ?thesis by simp
    qed
    show ?thesis
      unfolding ld fst_conv
      apply (intro conjI)
      subgoal
        using Some u ld
        by (cases "otp user"; cases "otp_created_at user")
           (auto simp: verifyOtp_def dest: uniq)
      subgoal
        using Some ld
        by (cases "otp user") (auto simp: verifyOtp_def dest!: uniq)
      done
  qed
qed

text \<open>The employee of the sample store, whose code was created at time 1000.\<close>

theorem verifyOtp_success_iff_witness:
  "distinct (map user_id (fst (loadUsersFromFile sample_storage)))
   \<and> login_success (fst (verifyOtp 300999 ''emp001'' ''123456'' sample_storage))
   \<and> login_success (fst (verifyOtp 301000 ''emp001'' ''123456'' sample_storage))
   \<and> fst (verifyOtp 301001 ''emp001'' ''123456'' sample_storage)
       = LoginError ''OTP has expired. Please generate a new one.''
   \<and> fst (verifyOtp 301001 ''emp001'' ''000000'' sample_storage)
       = LoginError ''OTP has expired. Please generate a new one.''
   \<and> \<not> login_success (fst (verifyOtp 300999 ''emp001'' ''000000'' sample_storage))
   \<and> \<not> login_success (fst (verifyOtp 300999 ''admin'' ''123456'' sample_storage))"
proof -
  note d = sample_distinct
  have a: "login_success (fst (verifyOtp 300999 ''emp001'' ''123456'' sample_storage))"
    using verifyOtp_success_iff [OF d, of 300999 "''emp001''" "''123456''"]
    by (simp add: sample_loaded sample_users_def)
  have b: "login_success (fst (verifyOtp 301000 ''emp001'' ''123456'' sample_storage))"
    using verifyOtp_success_iff [OF d, of 301000 "''emp001''" "''123456''"]
    by (simp add: sample_loaded sample_users_def)
  have c: "fst (verifyOtp 301001 ''emp001'' ''123456'' sample_storage)
       = LoginError ''OTP has expired. Please generate a new one.''"
    using verifyOtp_success_iff [OF d, of 301001 "''emp001''" "''123456''"]
    by (simp add: sample_loaded sample_users_def)
  have c': "fst (verifyOtp 301001 ''emp001'' ''000000'' sample_storage)
       = LoginError ''OTP has expired. Please generate a new one.''"
    using verifyOtp_success_iff [OF d, of 301001 "''emp001''" "''000000''"]
    by (simp add: sample_loaded sample_users_def)
  have e: "\<not> login_success (fst (verifyOtp 300999 ''emp001'' ''000000'' sample_storage))"
    using verifyOtp_success_iff [OF d, of 300999 "''emp001''" "''000000''"]
    by (simp add: sample_loaded sample_users_def)
  have f: "\<not> login_success (fst (verifyOtp 300999 ''admin'' ''123456'' sample_storage))"
    using verifyOtp_success_iff [OF d, of 300999 "''admin''" "''123456''"]
    by (simp add: sample_loaded sample_users_def)
  from d a b c c' e f show ?thesis by blast
qed

text \<open>
  Claim C6. Let the user ids of the store be distinct. \<^verbatim>\<open>loginUser\<close> succeeds only for
  a user with role admin. For the admin with id \<open>admin\<close> it succeeds exactly when the
  password given is \<open>admin\<close>; for any other admin exactly when the password given equals
  the stored one (both are optional: an absent password equals only an absent one); an
  admin who does not succeed gets the invalid-credentials response. An id that no user
  has gets the not-found response, and an employee gets the response that this login
  method does not apply, whatever the password.
\<close>

theorem loginUser_admin_only:
  assumes "distinct (map user_id (fst (loadUsersFromFile s)))"
  shows "(login_success (fst (loginUser userId pw s)) \<longrightarrow>
            (\<exists>user\<in>set (fst (loadUsersFromFile s)). user_id user = userId \<and> role user = Admin))
       \<and> (\<forall>user\<in>set (fst (loadUsersFromFile s)). user_id user = userId \<and> role user = Admin \<longrightarrow>
            (login_success (fst (loginUser userId pw s)) \<longleftrightarrow>
               (if userId = ''admin'' then pw = Some ''admin'' else pw = password user)) \<and>
            (\<not> login_success (fst (loginUser userId pw s)) \<longrightarrow>
               fst (loginUser userId pw s) = LoginError ''Invalid credentials for this admin user.''))
       \<and> ((\<forall>user\<in>set (fst (loadUsersFromFile s)). user_id user \<noteq> userId) \<longrightarrow>
            fst (loginUser userId pw s) = LoginError ''User not found'')
       \<and> (\<forall>user\<in>set (fst (loadUsersFromFile s)). user_id user = userId \<and> role user = Employee \<longrightarrow>
            fst (loginUser userId pw s) = LoginError ''Login method not applicable for this user type here.'')"
proof -
  obtain users s' where ld: "loadUsersFromFile s = (users, s')" by (cases "loadUsersFromFile s")
  with assms have d: "distinct (map user_id users)" by simp
  show ?thesis
  proof (cases "find (\<lambda>u. user_id u = userId \<and> True) users")
    case None
    then have "\<forall>u\<in>set users. user_id u \<noteq> userId"
      using find_None_id [of userId "\<lambda>u. True" users] by simp
    with None ld show ?thesis by (auto simp: loginUser_def)
  next
    case (Some user)
    then have u: "user \<in> set users" "user_id user = userId"
      using find_distinct_id [OF d, of userId "\<lambda>u. True" user] by auto
    have uniq: "v = user" if "v \<in> set users" "user_id v = userId" for v
    proof -
      from that have "find (\<lambda>u. user_id u = userId \<and> True) users = Some v"
        using find_distinct_id [OF d, of userId "\<lambda>u. True" v] by simp
      with Some show ?thesis by simp
    qed
    show ?thesis
      unfolding ld fst_conv
      using Some u ld
      by (cases "role user") (auto simp: loginUser_def dest: uniq)
  qed
qed

text \<open>The two admins, the employee and an unknown id of the sample store.\<close>

theorem loginUser_admin_only_witness:
  "distinct (map user_id (fst (loadUsersFromFile sample_storage)))
   \<and> login_success (fst (loginUser ''admin'' (Some ''admin'') sample_storage))
   \<and> fst (loginUser ''admin'' (Some ''s3cret'') sample_storage)
       = LoginError ''Invalid credentials for this admin user.''
   \<and> login_success (fst (loginUser ''adm002'' (Some ''s3cret'') sample_storage))
   \<and> fst (loginUser ''adm002'' (Some ''admin'') sample_storage)
       = LoginError ''Invalid credentials for this admin user.''
   \<and> fst (loginUser ''nobody'' (Some ''admin'') sample_storage) = LoginError ''User not found''
   \<and> fst (loginUser ''emp001'' (Some ''123456'') sample_storage)
       = LoginError ''Login method not applicable for this user type here.''"
proof -
  note d = sample_distinct
  have a: "login_success (fst (loginUser ''admin'' (Some ''admin'') sample_storage))"
    using loginUser_admin_only [OF d, of "''admin''" "Some ''admin''"]
    by (simp add: sample_loaded sample_users_def)
  have b: "fst (loginUser ''admin'' (Some ''s3cret'') sample_storage)
       = LoginError ''Invalid credentials for this admin user.''"
    using loginUser_admin_only [OF d, of "''admin''" "Some ''s3cret''"]
    by (simp add: sample_loaded sample_users_def)
  have c: "login_success (fst (loginUser ''adm002'' (Some ''s3cret'') sample_storage))"
    using loginUser_admin_only [OF d, of "''adm002''" "Some ''s3cret''"]
    by (simp add: sample_loaded sample_users_def)
  have e: "fst (loginUser ''adm002'' (Some ''admin'') sample_storage)
       = LoginError ''Invalid credentials for this admin user.''"
    using loginUser_admin_only [OF d, of "''adm002''" "Some ''admin''"]
    by (simp add: sample_loaded sample_users_def)
  have f: "fst (loginUser ''nobody'' (Some ''admin'') sample_storage) = LoginError ''User not found''"
    using loginUser_admin_only [OF d, of "''nobody''" "Some ''admin''"]
    by (simp add: sample_loaded sample_users_def)
  have g: "fst (loginUser ''emp001'' (Some ''123456'') sample_storage)
       = LoginError ''Login method not applicable for this user type here.''"
    using loginUser_admin_only [OF d, of "''emp001''" "Some ''123456''"]
    by (simp add: sample_loaded sample_users_def)
  from d a b c e f g show ?thesis by blast
qed

text \<open>
  Claim C7. \<^verbatim>\<open>deleteUser\<close> fails for the ids \<open>admin\<close> and \<open>employee\<close> in every storage
  state. For any other id that a user of the store has, the call succeeds and the store
  afterwards is the store before without the users of that id, and a second call with
  the same id gets the not-found response.
\<close>

theorem deleteUser_protected_and_once:
  "\<not> basic_success (fst (deleteUser ''admin'' s))
   \<and> \<not> basic_success (fst (deleteUser ''employee'' s))
   \<and> (userId \<noteq> ''admin'' \<and> userId \<noteq> ''employee'' \<and>
        userId \<in> user_id ` set (fst (loadUsersFromFile s)) \<longrightarrow>
        basic_success (fst (deleteUser userId s)) \<and>
        fst (loadUsersFromFile (snd (deleteUser userId s))) =
          filter (\<lambda>u. user_id u \<noteq> userId) (fst (loadUsersFromFile s)) \<and>
        userId \<notin> user_id ` set (fst (loadUsersFromFile (snd (deleteUser userId s)))) \<and>
        fst (deleteUser userId (snd (deleteUser userId s))) = BasicError ''User not found.'')"
proof -
  obtain users s' where ld: "loadUsersFromFile s = (users, s')" by (cases "loadUsersFromFile s")
  have len: "length (filter (\<lambda>u. user_id u \<noteq> userId) users) < length users"
    if "userId \<in> user_id ` set users"
    using that by (induction users) (auto simp: less_Suc_eq_le)
  have ld2: "loadUsersFromFile (saveUsersToFile us s') = (us, saveUsersToFile us s')" for us
    by (simp add: loadUsersFromFile_def saveUsersToFile_def)
  show ?thesis
    using ld len
    by (auto simp: deleteUser_def Let_def ld2)
qed

text \<open>Deleting the employee of the sample store, twice.\<close>

theorem deleteUser_protected_and_once_witness:
  "''emp001'' \<noteq> ''admin'' \<and> ''emp001'' \<noteq> ''employee''
   \<and> ''emp001'' \<in> user_id ` set (fst (loadUsersFromFile sample_storage))
   \<and> basic_success (fst (deleteUser ''emp001'' sample_storage))
   \<and> ''emp001'' \<notin> user_id ` set (fst (loadUsersFromFile (snd (deleteUser ''emp001'' sample_storage))))
   \<and> fst (deleteUser ''emp001'' (snd (deleteUser ''emp001'' sample_storage))) = BasicError ''User not found.''
   \<and> \<not> basic_success (fst (deleteUser ''admin'' sample_storage))"
proof -
  have p: "''emp001'' \<noteq> ''admin'' \<and> ''emp001'' \<noteq> ''employee''
      \<and> ''emp001'' \<in> user_id ` set (fst (loadUsersFromFile sample_storage))"
    by (simp add: sample_loaded sample_users_def)
  note t = deleteUser_protected_and_once [of sample_storage "''emp001''"]
  from t p have a: "basic_success (fst (deleteUser ''emp001'' sample_storage))" by blast
  from t p have b: "''emp001'' \<notin> user_id ` set (fst (loadUsersFromFile (snd (deleteUser ''emp001'' sample_storage))))"
    by blast
  from t p have c: "fst (deleteUser ''emp001'' (snd (deleteUser ''emp001'' sample_storage))) = BasicError ''User not found.''"
    by blast
  from t have e: "\<not> basic_success (fst (deleteUser ''admin'' sample_storage))" by blast
  from p a b c e show ?thesis by blast
qed

text \<open>
  Claim C9. When the users file exists (whether or not it can be parsed), an operation
  of the user store that returns a failure leaves the whole storage, and so the users
  file, as it was: \<^verbatim>\<open>addUser\<close>, \<^verbatim>\<open>deleteUser\<close>, \<^verbatim>\<open>verifyOtp\<close>,
  \<^verbatim>\<open>generateAndStoreOTP\<close>, \<^verbatim>\<open>updateAdminDetails\<close>, \<^verbatim>\<open>revokeOTP\<close>, and also
  \<^verbatim>\<open>loginUser\<close> and \<^verbatim>\<open>fetchUserDetails\<close>.
\<close>

theorem failure_leaves_users_file:
  assumes "users_file s \<noteq> NoFile"
  shows "(\<not> basic_success (fst (addUser userId userName pwd rl s)) \<longrightarrow> snd (addUser userId userName pwd rl s) = s)
       \<and> (\<not> basic_success (fst (deleteUser userId s)) \<longrightarrow> snd (deleteUser userId s) = s)
       \<and> (\<not> login_success (fst (verifyOtp now userId code s)) \<longrightarrow> snd (verifyOtp now userId code s) = s)
       \<and> (\<not> basic_success (fst (generateAndStoreOTP now rnd userId s)) \<longrightarrow> snd (generateAndStoreOTP now rnd userId s) = s)
       \<and> (\<not> basic_success (fst (updateAdminDetails userId userName newPassword s)) \<longrightarrow>
             snd (updateAdminDetails userId userName newPassword s) = s)
       \<and> (\<not> basic_success (fst (revokeOTP userId s)) \<longrightarrow> snd (revokeOTP userId s) = s)
       \<and> (\<not> login_success (fst (loginUser userId pw s)) \<longrightarrow> snd (loginUser userId pw s) = s)
       \<and> (\<not> login_success (fst (fetchUserDetails userId s)) \<longrightarrow> snd (fetchUserDetails userId s) = s)"
proof -
  obtain users where ld: "loadUsersFromFile s = (users, s)"
    using load_users_unchanged [OF assms] by (cases "loadUsersFromFile s") simp
  show ?thesis
    apply (intro conjI)
    subgoal by (simp add: addUser_def ld split: option.splits)
    subgoal by (simp add: deleteUser_def ld Let_def)
    subgoal by (simp add: verifyOtp_def ld Let_def split: option.splits)
    subgoal by (simp add: generateAndStoreOTP_def ld Let_def split: option.splits)
    subgoal by (simp add: updateAdminDetails_def ld Let_def split: option.splits)
    subgoal by (simp add: revokeOTP_def ld Let_def split: option.splits)
    subgoal by (simp add: loginUser_def ld Let_def split: option.splits)
    subgoal by (simp add: fetchUserDetails_def ld Let_def split: option.splits)
    done
qed

text \<open>One failing call of each operation on the sample store.\<close>

theorem failure_leaves_users_file_witness:
  "users_file sample_storage \<noteq> NoFile
   \<and> \<not> basic_success (fst (addUser ''ADMIN'' ''Second'' ''pw'' Employee sample_storage))
   \<and> snd (addUser ''ADMIN'' ''Second'' ''pw'' Employee sample_storage) = sample_storage
   \<and> \<not> basic_success (fst (deleteUser ''admin'' sample_storage))
   \<and> snd (deleteUser ''admin'' sample_storage) = sample_storage
   \<and> \<not> basic_success (fst (deleteUser ''nobody'' sample_storage))
   \<and> snd (deleteUser ''nobody'' sample_storage) = sample_storage
   \<and> \<not> login_success (fst (verifyOtp 301001 ''emp001'' ''123456'' sample_storage))
   \<and> snd (verifyOtp 301001 ''emp001'' ''123456'' sample_storage) = sample_storage
   \<and> \<not> basic_success (fst (generateAndStoreOTP 5 7 ''admin'' sample_storage))
   \<and> snd (generateAndStoreOTP 5 7 ''admin'' sample_storage) = sample_storage
   \<and> \<not> basic_success (fst (updateAdminDetails ''emp001'' ''Alice'' None sample_storage))
   \<and> snd (updateAdminDetails ''emp001'' ''Alice'' None sample_storage) = sample_storage
   \<and> \<not> basic_success (fst (revokeOTP ''admin'' sample_storage))
   \<and> snd (revokeOTP ''admin'' sample_storage) = sample_storage
   \<and> \<not> login_success (fst (loginUser ''emp001'' None sample_storage))
   \<and> snd (loginUser ''emp001'' None sample_storage) = sample_storage
   \<and> \<not> login_success (fst (fetchUserDetails ''nobody'' sample_storage))
   \<and> snd (fetchUserDetails ''nobody'' sample_storage) = sample_storage"
proof -
  have ex: "users_file sample_storage \<noteq> NoFile" by (simp add: sample_storage_def)
  have f1: "\<not> basic_success (fst (addUser ''ADMIN'' ''Second'' ''pw'' Employee sample_storage))" by code_simp
  have f2: "\<not> basic_success (fst (deleteUser ''admin'' sample_storage))" by code_simp
  have f3: "\<not> basic_success (fst (deleteUser ''nobody'' sample_storage))" by code_simp
  have f4: "\<not> login_success (fst (verifyOtp 301001 ''emp001'' ''123456'' sample_storage))" by code_simp
  have f5: "\<not> basic_success (fst (generateAndStoreOTP 5 7 ''admin'' sample_storage))" by code_simp
  have f6: "\<not> basic_success (fst (updateAdminDetails ''emp001'' ''Alice'' None sample_storage))" by code_simp
  have f7: "\<not> basic_success (fst (revokeOTP ''admin'' sample_storage))" by code_simp
  have f8: "\<not> login_success (fst (loginUser ''emp001'' None sample_storage))" by code_simp
  have f9: "\<not> login_success (fst (fetchUserDetails ''nobody'' sample_storage))" by code_simp
  from failure_leaves_users_file [OF ex, of "''ADMIN''" "''Second''" "''pw''" Employee] f1
  have g1: "snd (addUser ''ADMIN'' ''Second'' ''pw'' Employee sample_storage) = sample_storage" by blast
  from failure_leaves_users_file [OF ex, of "''admin''"] f2
  have g2: "snd (deleteUser ''admin'' sample_storage) = sample_storage" by blast
  from failure_leaves_users_file [OF ex, of "''nobody''"] f3
  have g3: "snd (deleteUser ''nobody'' sample_storage) = sample_storage" by blast
  from failure_leaves_users_file [OF ex, where userId = "''emp001''" and now = 301001 and code = "''123456''"] f4
  have g4: "snd (verifyOtp 301001 ''emp001'' ''123456'' sample_storage) = sample_storage" by blast
  from failure_leaves_users_file [OF ex, where userId = "''admin''" and now = 5 and rnd = 7] f5
  have g5: "snd (generateAndStoreOTP 5 7 ''admin'' sample_storage) = sample_storage" by blast
  from failure_leaves_users_file [OF ex, where userId = "''emp001''" and userName = "''Alice''" and newPassword = None] f6
  have g6: "snd (updateAdminDetails ''emp001'' ''Alice'' None sample_storage) = sample_storage" by blast
  from failure_leaves_users_file [OF ex, where userId = "''admin''"] f7
  have g7: "snd (revokeOTP ''admin'' sample_storage) = sample_storage" by blast
  from failure_leaves_users_file [OF ex, where userId = "''emp001''" and pw = None] f8
  have g8: "snd (loginUser ''emp001'' None sample_storage) = sample_storage" by blast
  from failure_leaves_users_file [OF ex, where userId = "''nobody''"] f9
  have g9: "snd (fetchUserDetails ''nobody'' sample_storage) = sample_storage" by blast
  from ex f1 g1 f2 g2 f3 g3 f4 g4 f5 g5 f6 g6 f7 g7 f8 g8 f9 g9 show ?thesis by blast
qed

end
